(* ===== verification/Prelude.thy ===== *)
theory Prelude
  imports Main "HOL-Library.Word" "HOL-Library.Sublist"
begin

text \<open>
  What every component of the model shares: the machine types, the error type of
  \<open>src/src/error.rs\<close> and its result type, the combinators that stand for Rust's \<open>?\<close>,
  \<open>map_err\<close> and \<open>ok_or\<close>, the state-and-error computations in which the readers, the file
  operations and the commands are written, and the rules by which properties of them are
  composed. The locale \<open>frame\<close> is the interface between a computation and a relation its
  steps keep between the states before and after.
\<close>

section \<open>Machine types\<close>

type_synonym byte = "8 word"
type_synonym bytes = "byte list"

text \<open>A byte string literal (\<open>b"..."\<close>, or an ASCII \<open>&str\<close>) as the bytes it denotes.\<close>

definition ascii :: "string \<Rightarrow> bytes" where
  "ascii s = map of_char s"

lemma length_ascii [simp]: "length (ascii s) = length s"
  by (simp add: ascii_def)

text \<open>
  \<open>usize\<close> is 64 bits wide on the platforms the program is built for. Lengths are \<open>nat\<close>;
  the checked operations fail where the machine would overflow.
\<close>

definition usize_max :: nat where
  "usize_max = 2 ^ 64 - 1"

definition checked_add :: "nat \<Rightarrow> nat \<Rightarrow> nat option" where
  "checked_add a b = (if a + b \<le> usize_max then Some (a + b) else None)"

definition checked_mul :: "nat \<Rightarrow> nat \<Rightarrow> nat option" where
  "checked_mul a b = (if a * b \<le> usize_max then Some (a * b) else None)"

definition checked_sub :: "nat \<Rightarrow> nat \<Rightarrow> nat option" where
  "checked_sub a b = (if b \<le> a then Some (a - b) else None)"

definition saturating_sub :: "nat \<Rightarrow> nat \<Rightarrow> nat" where
  "saturating_sub a b = (if b \<le> a then a - b else 0)"

lemma checked_add_Some_iff [simp]:
  "checked_add a b = Some c \<longleftrightarrow> c = a + b \<and> a + b \<le> usize_max"
  by (auto simp: checked_add_def)

lemma checked_add_None_iff [simp]: "checked_add a b = None \<longleftrightarrow> usize_max < a + b"
  by (auto simp: checked_add_def)

lemma checked_mul_Some_iff [simp]:
  "checked_mul a b = Some c \<longleftrightarrow> c = a * b \<and> a * b \<le> usize_max"
  by (auto simp: checked_mul_def)

lemma saturating_sub_minus [simp]: "saturating_sub a b = a - b"
  by (simp add: saturating_sub_def)

section \<open>Errors and results\<close>

text \<open>The kinds of \<open>std::io::Error\<close> the model distinguishes.\<close>

datatype io_kind =
    NotFoundKind | AlreadyExistsKind | PermissionDeniedKind | NotADirectoryKind
  | IsADirectoryKind | FilesystemLoopKind | InvalidDataKind | UnexpectedEofKind | OtherKind

datatype error =
    Authentication
  | CannotOpen
  | IdentityMismatch
  | InvalidInput string
  | Io io_kind
  | NotFound string
  | Randomness
  | Usage string

type_synonym 'a result = "error + 'a"

abbreviation Ok :: "'a \<Rightarrow> 'e + 'a" where "Ok \<equiv> Inr"
abbreviation Err :: "'e \<Rightarrow> 'e + 'a" where "Err \<equiv> Inl"

text \<open>\<open>impl fmt::Display for Error\<close>; how the system prints an I/O error is an argument.\<close>

fun display_error :: "(io_kind \<Rightarrow> string) \<Rightarrow> error \<Rightarrow> string" where
  "display_error show_io Authentication = ''authentication failed''"
| "display_error show_io CannotOpen = ''Cannot open blob.''"
| "display_error show_io IdentityMismatch = ''IDENTITY MISMATCH'' @ [CHR 0x0A] @ ''POSSIBLE MITM''"
| "display_error show_io (InvalidInput message) = message"
| "display_error show_io (Io e) = ''I/O error: '' @ show_io e"
| "display_error show_io (NotFound message) = message"
| "display_error show_io Randomness = ''operating-system randomness failed''"
| "display_error show_io (Usage message) = message"

definition and_then :: "'a result \<Rightarrow> ('a \<Rightarrow> 'b result) \<Rightarrow> 'b result" where
  "and_then r f = (case r of Inl e \<Rightarrow> Inl e | Inr x \<Rightarrow> f x)"

definition map_err :: "(error \<Rightarrow> error) \<Rightarrow> 'a result \<Rightarrow> 'a result" where
  "map_err f r = (case r of Inl e \<Rightarrow> Inl (f e) | Inr x \<Rightarrow> Inr x)"

definition ok_or :: "error \<Rightarrow> 'a option \<Rightarrow> 'a result" where
  "ok_or e v = (case v of None \<Rightarrow> Inl e | Some x \<Rightarrow> Inr x)"

lemma and_then_simps [simp]: "and_then (Inl e) f = Inl e" "and_then (Inr x) f = f x"
  by (simp_all add: and_then_def)

lemma and_then_Inr_iff: "and_then r f = Inr y \<longleftrightarrow> (\<exists>x. r = Inr x \<and> f x = Inr y)"
  by (auto simp: and_then_def split: sum.splits)

lemma and_then_Inl_iff: "and_then r f = Inl e \<longleftrightarrow> r = Inl e \<or> (\<exists>x. r = Inr x \<and> f x = Inl e)"
  by (auto simp: and_then_def split: sum.splits)

lemma map_err_simps [simp]: "map_err f (Inl e) = Inl (f e)" "map_err f (Inr x) = Inr x"
  by (simp_all add: map_err_def)

lemma map_err_Inr_iff [simp]: "map_err f r = Inr y \<longleftrightarrow> r = Inr y"
  by (auto simp: map_err_def split: sum.splits)

lemma map_err_const_Inl: "map_err (\<lambda>_. c) r = Inl e \<Longrightarrow> e = c"
  by (auto simp: map_err_def split: sum.splits)

lemma ok_or_simps [simp]: "ok_or e None = Inl e" "ok_or e (Some x) = Inr x"
  by (simp_all add: ok_or_def)

lemma ok_or_Inr_iff [simp]: "ok_or e v = Inr y \<longleftrightarrow> v = Some y"
  by (auto simp: ok_or_def split: option.splits)

lemmas result_iffs = and_then_Inr_iff and_then_Inl_iff

section \<open>Computations with a state and errors\<close>

text \<open>
  A Rust function that works on \<open>&mut self\<close>, or on the operating system, is a function from
  the state before to its result and the state after. The state is returned on the error
  path too: effects made before an error stay made.
\<close>

type_synonym ('s, 'a) st = "'s \<Rightarrow> 'a result \<times> 's"

definition ret :: "'a \<Rightarrow> ('s, 'a) st" where
  "ret x s = (Inr x, s)"

definition throw :: "error \<Rightarrow> ('s, 'a) st" where
  "throw e s = (Inl e, s)"

definition lift_result :: "'a result \<Rightarrow> ('s, 'a) st" where
  "lift_result r s = (r, s)"

definition get_state :: "('s \<Rightarrow> 'a) \<Rightarrow> ('s, 'a) st" where
  "get_state f s = (Inr (f s), s)"

text \<open>\<open>let x = m?; f(x)\<close>\<close>

definition bind_st :: "('s, 'a) st \<Rightarrow> ('a \<Rightarrow> ('s, 'b) st) \<Rightarrow> ('s, 'b) st" where
  "bind_st m f s = (case m s of (r, s') \<Rightarrow> (case r of Inl e \<Rightarrow> (Inl e, s') | Inr x \<Rightarrow> f x s'))"

text \<open>\<open>match m { Ok(x) => .., Err(e) => .. }\<close>: the error becomes a value.\<close>

definition attempt :: "('s, 'a) st \<Rightarrow> ('s, 'a result) st" where
  "attempt m s = (case m s of (r, s') \<Rightarrow> (Inr r, s'))"

text \<open>\<open>m.map_err(g)\<close>\<close>

definition map_err_st :: "(error \<Rightarrow> error) \<Rightarrow> ('s, 'a) st \<Rightarrow> ('s, 'a) st" where
  "map_err_st g m s = (case m s of (r, s') \<Rightarrow> (map_err g r, s'))"

definition when_st :: "bool \<Rightarrow> ('s, unit) st \<Rightarrow> ('s, unit) st" where
  "when_st b m = (if b then m else ret ())"

lemma st_simps [simp]:
  "ret x s = (Inr x, s)"
  "throw e s = (Inl e, s)"
  "lift_result r s = (r, s)"
  "get_state g s = (Inr (g s), s)"
  by (simp_all add: ret_def throw_def lift_result_def get_state_def)

lemma bind_st_Inr [simp]: "m s = (Inr x, s') \<Longrightarrow> bind_st m f s = f x s'"
  by (simp add: bind_st_def)

lemma bind_st_Inl [simp]: "m s = (Inl e, s') \<Longrightarrow> bind_st m f s = (Inl e, s')"
  by (simp add: bind_st_def)

lemma bind_st_eval [simp]:
  "bind_st (ret x) f s = f x s"
  "bind_st (throw e) f s = (Inl e, s)"
  "bind_st (get_state g) f s = f (g s) s"
  "bind_st (lift_result (Inr x)) f s = f x s"
  "bind_st (lift_result (Inl e)) f s = (Inl e, s)"
  by (simp_all add: bind_st_def)

text \<open>The monad laws, and how a sequence ends: with the first error or with the last value.\<close>

lemma bind_st_assoc: "bind_st (bind_st m f) g = bind_st m (\<lambda>x. bind_st (f x) g)"
  by (auto simp: bind_st_def fun_eq_iff split: sum.splits prod.splits)

lemma bind_st_ret [simp]: "bind_st m ret = m"
  by (auto simp: bind_st_def fun_eq_iff split: sum.splits prod.splits)

lemma bind_st_OkE:
  assumes "bind_st m f s = (Inr y, s'')"
  obtains x s' where "m s = (Inr x, s')" "f x s' = (Inr y, s'')"
  using assms by (auto simp: bind_st_def split: sum.splits prod.splits)

lemma bind_st_Ok_iff:
  "bind_st m f s = (Inr y, s'') \<longleftrightarrow> (\<exists>x s'. m s = (Inr x, s') \<and> f x s' = (Inr y, s''))"
  by (auto simp: bind_st_def split: sum.splits prod.splits)

lemma bind_st_Err_iff:
  "bind_st m f s = (Inl e, s'') \<longleftrightarrow>
     m s = (Inl e, s'') \<or> (\<exists>x s'. m s = (Inr x, s') \<and> f x s' = (Inl e, s''))"
  by (auto simp: bind_st_def split: sum.splits prod.splits)

lemma map_err_st_Ok_iff [simp]: "map_err_st g m s = (Inr x, s') \<longleftrightarrow> m s = (Inr x, s')"
  by (auto simp: map_err_st_def split: prod.splits)

lemma map_err_st_Err_iff:
  "map_err_st g m s = (Inl e, s') \<longleftrightarrow> (\<exists>e'. m s = (Inl e', s') \<and> e = g e')"
  by (auto simp: map_err_st_def map_err_def split: prod.splits sum.splits)

lemma attempt_iff [simp]: "attempt m s = (r, s') \<longleftrightarrow> (\<exists>q. r = Inr q \<and> m s = (q, s'))"
  by (auto simp: attempt_def split: prod.splits)

lemma case_sumE:
  assumes "case_sum g f r s = y"
  obtains (Err) e where "r = Err e" "g e s = y" | (Ok) x where "r = Ok x" "f x s = y"
  using assms by (cases r) auto

lemmas st_iffs = bind_st_Ok_iff bind_st_Err_iff map_err_st_Err_iff

subsection \<open>Triples: what holds after a computation, on either way out\<close>

definition triple ::
  "('s \<Rightarrow> bool) \<Rightarrow> ('s, 'a) st \<Rightarrow> ('a \<Rightarrow> 's \<Rightarrow> bool) \<Rightarrow> (error \<Rightarrow> 's \<Rightarrow> bool) \<Rightarrow> bool" where
  "triple P m Q E \<longleftrightarrow>
     (\<forall>s. P s \<longrightarrow> (case m s of (r, s') \<Rightarrow> (case r of Inl e \<Rightarrow> E e s' | Inr x \<Rightarrow> Q x s')))"

lemma tripleI:
  assumes "\<And>s x s'. P s \<Longrightarrow> m s = (Inr x, s') \<Longrightarrow> Q x s'"
    and "\<And>s e s'. P s \<Longrightarrow> m s = (Inl e, s') \<Longrightarrow> E e s'"
  shows "triple P m Q E"
  using assms by (auto simp: triple_def split: prod.splits sum.splits)

lemma triple_OkD: "triple P m Q E \<Longrightarrow> P s \<Longrightarrow> m s = (Inr x, s') \<Longrightarrow> Q x s'"
  by (fastforce simp: triple_def)

lemma triple_ErrD: "triple P m Q E \<Longrightarrow> P s \<Longrightarrow> m s = (Inl e, s') \<Longrightarrow> E e s'"
  by (fastforce simp: triple_def)

lemma triple_bind:
  assumes "triple P m R E" and "\<And>x. triple (R x) (f x) Q E"
  shows "triple P (bind_st m f) Q E"
  using assms by (fastforce simp: triple_def bind_st_def split: prod.splits sum.splits)

subsection \<open>Relations that every step keeps\<close>

text \<open>
  \<open>keeps R m\<close>: whatever \<open>m\<close> returns, its state after is related by \<open>R\<close> to the state
  before. A preorder \<open>R\<close> is kept by a computation as soon as every step of it keeps it; the
  locale proves this once for all preorders, and the components interpret it with their own.
\<close>

definition keeps :: "('s \<Rightarrow> 's \<Rightarrow> bool) \<Rightarrow> ('s, 'a) st \<Rightarrow> bool" where
  "keeps R m \<longleftrightarrow> (\<forall>s. R s (snd (m s)))"

lemma keepsD: "keeps R m \<Longrightarrow> m s = (r, s') \<Longrightarrow> R s s'"
  by (metis keeps_def snd_conv)

lemma keepsI: "(\<And>s r s'. m s = (r, s') \<Longrightarrow> R s s') \<Longrightarrow> keeps R m"
  by (simp add: keeps_def prod_eq_iff)

locale frame =
  fixes R :: "'s \<Rightarrow> 's \<Rightarrow> bool"
  assumes frame_refl: "R s s"
    and frame_trans: "R s t \<Longrightarrow> R t u \<Longrightarrow> R s u"
begin

lemma keeps_ret [intro, simp]: "keeps R (ret x)"
  by (simp add: keeps_def frame_refl)

lemma keeps_throw [intro, simp]: "keeps R (throw e)"
  by (simp add: keeps_def frame_refl)

lemma keeps_lift [intro, simp]: "keeps R (lift_result r)"
  by (simp add: keeps_def frame_refl)

lemma keeps_get [intro, simp]: "keeps R (get_state f)"
  by (simp add: keeps_def frame_refl)

lemma keeps_bind [intro]:
  assumes "keeps R m" and "\<And>x. keeps R (f x)"
  shows "keeps R (bind_st m f)"
proof (rule keepsI)
  fix s r s'
  assume run: "bind_st m f s = (r, s')"
  obtain q t where m: "m s = (q, t)" by fastforce
  with assms(1) have "R s t" by (rule keepsD)
  moreover have "R t s'"
    using run m assms(2) by (cases q) (auto simp: frame_refl dest: keepsD)
  ultimately show "R s s'" by (rule frame_trans)
qed

lemma keeps_attempt [intro]: "keeps R m \<Longrightarrow> keeps R (attempt m)"
  by (auto intro!: keepsI dest: keepsD)

lemma keeps_map_err [intro]: "keeps R m \<Longrightarrow> keeps R (map_err_st g m)"
  by (auto intro!: keepsI simp: map_err_st_def dest: keepsD split: prod.splits)

lemma keeps_when [intro]: "keeps R m \<Longrightarrow> keeps R (when_st b m)"
  by (simp add: when_st_def)

lemma keeps_if [intro]: "keeps R m \<Longrightarrow> keeps R n \<Longrightarrow> keeps R (if b then m else n)"
  by simp

lemma keeps_option [intro]:
  "keeps R m \<Longrightarrow> (\<And>x. keeps R (f x)) \<Longrightarrow> keeps R (case v of None \<Rightarrow> m | Some x \<Rightarrow> f x)"
  by (cases v) auto

lemma keeps_sum [intro]:
  "(\<And>e. keeps R (g e)) \<Longrightarrow> (\<And>x. keeps R (f x)) \<Longrightarrow>
   keeps R (case v of Inl e \<Rightarrow> g e | Inr x \<Rightarrow> f x)"
  by (cases v) auto

lemma keeps_prod [intro]: "(\<And>x y. keeps R (f x y)) \<Longrightarrow> keeps R (case p of (x, y) \<Rightarrow> f x y)"
  by (cases p) auto

lemmas keeps_rules = keeps_bind keeps_attempt keeps_map_err keeps_when keeps_if keeps_option
  keeps_sum keeps_prod

end

end
