(* ===== verification/Str.thy ===== *)
theory Str
  imports Prelude
begin

text \<open>
  The parts of Rust's \<open>str\<close> the program uses, on the UTF-8 bytes a \<open>&str\<close> is: the
  validity check of \<open>std::str::from_utf8\<close>, \<open>lines()\<close>, \<open>strip_prefix\<close>, the ASCII case
  conversions and the ASCII classes. These model the standard library, so none of them has
  lines of its own under \<open>src/\<close>.
\<close>

section \<open>Bytes and their classes\<close>

abbreviation newline :: byte where "newline \<equiv> 0x0A"
abbreviation carriage_return :: byte where "carriage_return \<equiv> 0x0D"

definition in_range :: "byte \<Rightarrow> byte \<Rightarrow> byte \<Rightarrow> bool" where
  "in_range lo hi b \<longleftrightarrow> lo \<le> b \<and> b \<le> hi"

definition is_ascii_digit :: "byte \<Rightarrow> bool" where
  "is_ascii_digit b \<longleftrightarrow> in_range 0x30 0x39 b"

definition is_ascii_uppercase :: "byte \<Rightarrow> bool" where
  "is_ascii_uppercase b \<longleftrightarrow> in_range 0x41 0x5A b"

definition is_ascii_lowercase :: "byte \<Rightarrow> bool" where
  "is_ascii_lowercase b \<longleftrightarrow> in_range 0x61 0x7A b"

definition is_ascii_alphanumeric :: "byte \<Rightarrow> bool" where
  "is_ascii_alphanumeric b \<longleftrightarrow> is_ascii_digit b \<or> is_ascii_uppercase b \<or> is_ascii_lowercase b"

definition ascii_upper :: "byte \<Rightarrow> byte" where
  "ascii_upper b = (if is_ascii_lowercase b then b - 0x20 else b)"

definition ascii_lower :: "byte \<Rightarrow> byte" where
  "ascii_lower b = (if is_ascii_uppercase b then b + 0x20 else b)"

definition to_ascii_uppercase :: "bytes \<Rightarrow> bytes" where
  "to_ascii_uppercase s = map ascii_upper s"

definition to_ascii_lowercase :: "bytes \<Rightarrow> bytes" where
  "to_ascii_lowercase s = map ascii_lower s"

lemmas byte_class_defs = is_ascii_digit_def is_ascii_uppercase_def is_ascii_lowercase_def
  is_ascii_alphanumeric_def in_range_def

text \<open>A statement about every byte is a statement about 256 numbers.\<close>

lemma all_bytes_iff: "(\<forall>b::byte. P b) \<longleftrightarrow> (\<forall>n\<in>set [0..<256]. P (word_of_nat n))"
proof
  assume r: "\<forall>n\<in>set [0..<256]. P (word_of_nat n)"
  show "\<forall>b::byte. P b"
  proof
    fix b :: byte
    have "unat b \<in> set [0..<256]" using unsigned_less [of b] by simp
    with r have "P (word_of_nat (unat b))" by (rule bspec)
    then show "P b" by simp
  qed
qed simp

lemma all_bytesI: "\<forall>n\<in>set [0..<256]. P (word_of_nat n) \<Longrightarrow> P (b::byte)"
  using all_bytes_iff by blast

section \<open>UTF-8\<close>

text \<open>The table of well-formed byte sequences \<open>from_utf8\<close> accepts.\<close>

definition is_cont :: "byte \<Rightarrow> bool" where
  "is_cont b \<longleftrightarrow> in_range 0x80 0xBF b"

definition utf8_second3 :: "byte \<Rightarrow> byte \<Rightarrow> bool" where
  "utf8_second3 a b \<longleftrightarrow>
     a = 0xE0 \<and> in_range 0xA0 0xBF b \<or>
     in_range 0xE1 0xEC a \<and> is_cont b \<or>
     a = 0xED \<and> in_range 0x80 0x9F b \<or>
     in_range 0xEE 0xEF a \<and> is_cont b"

definition utf8_second4 :: "byte \<Rightarrow> byte \<Rightarrow> bool" where
  "utf8_second4 a b \<longleftrightarrow>
     a = 0xF0 \<and> in_range 0x90 0xBF b \<or>
     in_range 0xF1 0xF3 a \<and> is_cont b \<or>
     a = 0xF4 \<and> in_range 0x80 0x8F b"

fun utf8_valid :: "bytes \<Rightarrow> bool" where
  "utf8_valid [] = True"
| "utf8_valid (a # xs) =
     (if a < 0x80 then utf8_valid xs
      else (case xs of
              [] \<Rightarrow> False
            | b # ys \<Rightarrow>
                if in_range 0xC2 0xDF a then is_cont b \<and> utf8_valid ys
                else (case ys of
                        [] \<Rightarrow> False
                      | c # zs \<Rightarrow>
                          if in_range 0xE0 0xEF a then
                            utf8_second3 a b \<and> is_cont c \<and> utf8_valid zs
                          else (case zs of
                                  [] \<Rightarrow> False
                                | d # ws \<Rightarrow>
                                    utf8_second4 a b \<and> is_cont c \<and> is_cont d
                                    \<and> utf8_valid ws))))"

definition all_ascii :: "bytes \<Rightarrow> bool" where
  "all_ascii s \<longleftrightarrow> (\<forall>b\<in>set s. b < 0x80)"

lemma utf8_valid_ascii: "all_ascii s \<Longrightarrow> utf8_valid s"
  by (induction s) (auto simp: all_ascii_def)

lemma all_ascii_simps [simp]:
  "all_ascii []"
  "all_ascii (b # s) \<longleftrightarrow> b < 0x80 \<and> all_ascii s"
  "all_ascii (s @ t) \<longleftrightarrow> all_ascii s \<and> all_ascii t"
  by (auto simp: all_ascii_def)

section \<open>Lines and prefixes\<close>

definition strip_cr :: "bytes \<Rightarrow> bytes" where
  "strip_cr l = (if l \<noteq> [] \<and> last l = carriage_return then butlast l else l)"

text \<open>
  \<open>str::lines\<close>: the pieces between newlines, each without its newline and a carriage return
  before it; nothing after a final newline; a carriage return that ends the text without a
  newline stays.
\<close>

function str_lines :: "bytes \<Rightarrow> bytes list" where
  "str_lines [] = []"
| "str_lines (x # xs) =
     (case dropWhile (\<lambda>b. b \<noteq> newline) (x # xs) of
        [] \<Rightarrow> [x # xs]
      | _ # rest \<Rightarrow> strip_cr (takeWhile (\<lambda>b. b \<noteq> newline) (x # xs)) # str_lines rest)"
  by pat_completeness auto
termination
proof (relation "measure length", simp)
  fix x :: byte and xs y ys
  assume "dropWhile (\<lambda>b. b \<noteq> newline) (x # xs) = y # ys"
  then show "(ys, x # xs) \<in> measure length"
    by (metis in_measure length_Cons length_dropWhile_le less_eq_Suc_le)
qed

declare str_lines.simps(2) [simp del]

lemma str_lines_newline:
  assumes "newline \<notin> set l"
  shows "str_lines (l @ newline # rest) = strip_cr l # str_lines rest"
proof -
  have *: "dropWhile (\<lambda>b. b \<noteq> newline) (l @ newline # rest) = newline # rest"
    "takeWhile (\<lambda>b. b \<noteq> newline) (l @ newline # rest) = l"
    using assms by (induction l) auto
  obtain x xs where "l @ newline # rest = x # xs" by (cases l) auto
  then show ?thesis using * by (simp add: str_lines.simps(2))
qed

lemma strip_cr_id: "carriage_return \<notin> set l \<Longrightarrow> strip_cr l = l"
  by (auto simp: strip_cr_def dest: last_in_set)

definition strip_prefix :: "bytes \<Rightarrow> bytes \<Rightarrow> bytes option" where
  "strip_prefix p s = (if take (length p) s = p then Some (drop (length p) s) else None)"

lemma strip_prefix_append [simp]: "strip_prefix p (p @ s) = Some s"
  by (simp add: strip_prefix_def)

lemma strip_prefix_Some_iff: "strip_prefix p s = Some r \<longleftrightarrow> s = p @ r"
  by (auto simp: strip_prefix_def split: if_splits) (metis append_take_drop_id)

text \<open>An iterator that yields the elements of a list: \<open>next()\<close>.\<close>

definition iter_next :: "'a list \<Rightarrow> 'a option \<times> 'a list" where
  "iter_next xs = (case xs of [] \<Rightarrow> (None, []) | x # rest \<Rightarrow> (Some x, rest))"

lemma iter_next_simps [simp]: "iter_next [] = (None, [])" "iter_next (x # xs) = (Some x, xs)"
  by (simp_all add: iter_next_def)

end
