(* ===== verification/FileSystem.thy ===== *)
theory FileSystem
  imports Str "HOL-Library.AList" "HOL-Library.List_Lexorder"
begin

text \<open>
  The part of the operating system the program keeps its state in: \<open>std::path\<close> as the
  program uses it (paths as their components) and a Unix file system of files, directories,
  symbolic links and other nodes, with path resolution and the file operations of
  \<open>std::fs\<close>. It models the standard library and the system below it, so nothing here has
  lines of its own under \<open>src/\<close>. A path is the list of its components, which is what
  \<open>Path\<close>'s own comparison, \<open>parent\<close>, \<open>starts_with\<close> and \<open>join\<close> work on; a trailing
  slash, which components do not show, is not modelled.
\<close>

section \<open>Paths\<close>

datatype comp = RootDir | CurDir | ParentDir | Normal bytes

text \<open>
  The order of \<open>std::path::Component\<close>: by kind, names by their bytes. Paths are ordered
  component by component, the lexicographic order of lists.
\<close>

fun comp_rank :: "comp \<Rightarrow> nat" where
  "comp_rank RootDir = 0"
| "comp_rank CurDir = 1"
| "comp_rank ParentDir = 2"
| "comp_rank (Normal n) = 3"

fun comp_name :: "comp \<Rightarrow> bytes" where
  "comp_name (Normal n) = n"
| "comp_name _ = []"

lemma comp_eq_iff: "c = d \<longleftrightarrow> comp_rank c = comp_rank d \<and> comp_name c = comp_name d"
  by (cases c; cases d) auto

instantiation comp :: linorder
begin

definition less_eq_comp :: "comp \<Rightarrow> comp \<Rightarrow> bool" where
  "less_eq_comp c d \<longleftrightarrow>
     comp_rank c < comp_rank d \<or> comp_rank c = comp_rank d \<and> comp_name c \<le> comp_name d"

definition less_comp :: "comp \<Rightarrow> comp \<Rightarrow> bool" where
  "less_comp c d \<longleftrightarrow>
     comp_rank c < comp_rank d \<or> comp_rank c = comp_rank d \<and> comp_name c < comp_name d"

instance
  by standard (auto simp: less_eq_comp_def less_comp_def comp_eq_iff)

end

type_synonym path = "comp list"

abbreviation slash :: byte where "slash \<equiv> 0x2F"
abbreviation dot :: byte where "dot \<equiv> 0x2E"

fun split_on :: "byte \<Rightarrow> bytes \<Rightarrow> bytes list" where
  "split_on c [] = [[]]"
| "split_on c (x # xs) =
     (if x = c then [] # split_on c xs
      else (case split_on c xs of [] \<Rightarrow> [[x]] | p # ps \<Rightarrow> (x # p) # ps))"

definition component_of :: "bytes \<Rightarrow> comp option" where
  "component_of piece =
     (if piece = [] \<or> piece = [dot] then None
      else if piece = [dot, dot] then Some ParentDir
      else Some (Normal piece))"

definition path_of_bytes :: "bytes \<Rightarrow> path" where
  "path_of_bytes s =
     (let pieces = split_on slash s; comps = List.map_filter component_of pieces
      in if s \<noteq> [] \<and> hd s = slash then RootDir # comps
         else if hd pieces = [dot] then CurDir # comps
         else comps)"

definition has_root :: "path \<Rightarrow> bool" where
  "has_root p \<longleftrightarrow> (case p of RootDir # _ \<Rightarrow> True | _ \<Rightarrow> False)"

definition path_join :: "path \<Rightarrow> path \<Rightarrow> path" where
  "path_join p q =
     (if has_root q then q
      else if p = [] then q
      else p @ (case q of CurDir # rest \<Rightarrow> rest | _ \<Rightarrow> q))"

definition path_parent :: "path \<Rightarrow> path option" where
  "path_parent p = (if p = [] \<or> last p = RootDir then None else Some (butlast p))"

definition path_starts_with :: "path \<Rightarrow> path \<Rightarrow> bool" where
  "path_starts_with p q \<longleftrightarrow> prefix q p"

definition file_name :: "path \<Rightarrow> bytes option" where
  "file_name p = (if p = [] then None else (case last p of Normal n \<Rightarrow> Some n | _ \<Rightarrow> None))"

text \<open>A file name at its last dot; a name that starts with its only dot has no extension.\<close>

definition split_last_dot :: "bytes \<Rightarrow> bytes option \<times> bytes option" where
  "split_last_dot n =
     (if dot \<notin> set n then (Some n, None)
      else let extension = rev (takeWhile (\<lambda>b. b \<noteq> dot) (rev n));
               stem = take (length n - length extension - 1) n
           in if stem = [] then (Some n, None) else (Some stem, Some extension))"

definition file_stem :: "path \<Rightarrow> bytes option" where
  "file_stem p = Option.bind (file_name p) (\<lambda>n. fst (split_last_dot n))"

definition path_extension :: "path \<Rightarrow> bytes option" where
  "path_extension p = Option.bind (file_name p) (\<lambda>n. snd (split_last_dot n))"

lemma path_join_Normal [simp]: "path_join p [Normal n] = p @ [Normal n]"
  by (simp add: path_join_def has_root_def)

lemma path_parent_Normal [simp]: "path_parent (p @ [Normal n]) = Some p"
  by (simp add: path_parent_def)

lemma file_name_Normal [simp]: "file_name (p @ [Normal n]) = Some n"
  by (simp add: file_name_def)

lemma split_last_dot_append:
  assumes "dot \<notin> set e" and "s \<noteq> []"
  shows "split_last_dot (s @ dot # e) = (Some s, Some e)"
proof -
  have "takeWhile (\<lambda>b. b \<noteq> dot) (rev e @ dot # rev s) = rev e"
    using assms(1) by (induction e rule: rev_induct) auto
  then show ?thesis using assms(2) by (simp add: split_last_dot_def Let_def)
qed

section \<open>The file system\<close>

text \<open>
  A node's location is the list of names from the root of the tree, free of links and dots.
  The directory at \<open>[]\<close> is the root. Modes are the permission bits; the checks they imply
  are made by the system and appear as faults of the calls (theory World).
\<close>

type_synonym loc = "bytes list"
type_synonym mode = "32 word"

datatype node =
    FileNode mode bytes
  | DirNode mode
  | SymlinkNode path
  | OtherNode mode

type_synonym fs = "(loc \<times> node) list"

definition fs_get :: "fs \<Rightarrow> loc \<Rightarrow> node option" where
  "fs_get fs l = map_of fs l"

definition fs_put :: "loc \<Rightarrow> node \<Rightarrow> fs \<Rightarrow> fs" where
  "fs_put l n fs = AList.update l n fs"

definition fs_del :: "loc \<Rightarrow> fs \<Rightarrow> fs" where
  "fs_del l fs = AList.delete l fs"

lemma fs_get_put [simp]: "fs_get (fs_put l n fs) k = (if k = l then Some n else fs_get fs k)"
  by (simp add: fs_get_def fs_put_def update_conv')

lemma fs_get_del [simp]: "fs_get (fs_del l fs) k = (if k = l then None else fs_get fs k)"
  by (simp add: fs_get_def fs_del_def delete_conv')

fun is_dir_node :: "node \<Rightarrow> bool" where
  "is_dir_node (DirNode m) = True"
| "is_dir_node _ = False"

fun is_file_node :: "node \<Rightarrow> bool" where
  "is_file_node (FileNode m c) = True"
| "is_file_node _ = False"

fun is_symlink_node :: "node \<Rightarrow> bool" where
  "is_symlink_node (SymlinkNode t) = True"
| "is_symlink_node _ = False"

fun node_len :: "node \<Rightarrow> nat" where
  "node_len (FileNode m c) = length c"
| "node_len _ = 0"

fun set_node_mode :: "mode \<Rightarrow> node \<Rightarrow> node" where
  "set_node_mode m (FileNode m0 c) = FileNode m c"
| "set_node_mode m (DirNode m0) = DirNode m"
| "set_node_mode m (OtherNode m0) = OtherNode m"
| "set_node_mode m (SymlinkNode t) = SymlinkNode t"

definition is_dir_at :: "fs \<Rightarrow> loc \<Rightarrow> bool" where
  "is_dir_at fs l \<longleftrightarrow> (case fs_get fs l of Some n \<Rightarrow> is_dir_node n | None \<Rightarrow> False)"

subsection \<open>Resolution\<close>

text \<open>
  Following a path from a directory. Links in the middle are always followed, a link at the
  end only if \<open>follow\<close>; \<open>fuel\<close> is the number of links the system still agrees to follow.
  The last component need not exist: its location is then where it would be created.
\<close>

fun walk :: "nat \<Rightarrow> fs \<Rightarrow> bool \<Rightarrow> loc \<Rightarrow> path \<Rightarrow> io_kind + loc" where
  "walk fuel fs follow cur [] = Inr cur"
| "walk fuel fs follow cur (RootDir # cs) = walk fuel fs follow [] cs"
| "walk fuel fs follow cur (CurDir # cs) = walk fuel fs follow cur cs"
| "walk fuel fs follow cur (ParentDir # cs) = walk fuel fs follow (butlast cur) cs"
| "walk fuel fs follow cur (Normal x # cs) =
     (case fs_get fs (cur @ [x]) of
        None \<Rightarrow> if cs = [] then Inr (cur @ [x]) else Inl NotFoundKind
      | Some (SymlinkNode t) \<Rightarrow>
          if cs = [] \<and> \<not> follow then Inr (cur @ [x])
          else (case fuel of
                  0 \<Rightarrow> Inl FilesystemLoopKind
                | Suc fuel' \<Rightarrow> walk fuel' fs follow cur (t @ cs))
      | Some (DirNode m) \<Rightarrow> walk fuel fs follow (cur @ [x]) cs
      | Some _ \<Rightarrow> if cs = [] then Inr (cur @ [x]) else Inl NotADirectoryKind)"

text \<open>Linux follows at most 40 links in one resolution.\<close>

definition max_symlinks :: nat where
  "max_symlinks = 40"

definition resolve :: "fs \<Rightarrow> bool \<Rightarrow> loc \<Rightarrow> path \<Rightarrow> io_kind + loc" where
  "resolve fs follow cwd p =
     (if p = [] then Inl NotFoundKind else walk max_symlinks fs follow cwd p)"

text \<open>The node a path leads to.\<close>

definition lookup_node :: "fs \<Rightarrow> bool \<Rightarrow> loc \<Rightarrow> path \<Rightarrow> io_kind + (loc \<times> node)" where
  "lookup_node fs follow cwd p =
     (case resolve fs follow cwd p of
        Inl k \<Rightarrow> Inl k
      | Inr l \<Rightarrow> (case fs_get fs l of None \<Rightarrow> Inl NotFoundKind | Some n \<Rightarrow> Inr (l, n)))"

subsection \<open>The calls, on the tree alone\<close>

definition fs_create_new :: "loc \<Rightarrow> path \<Rightarrow> node \<Rightarrow> fs \<Rightarrow> (io_kind + loc) \<times> fs" where
  "fs_create_new cwd p n fs =
     (case resolve fs False cwd p of
        Inl k \<Rightarrow> (Inl k, fs)
      | Inr l \<Rightarrow>
          if fs_get fs l \<noteq> None then (Inl AlreadyExistsKind, fs)
          else (Inr l, fs_put l n fs))"

definition fs_unlink :: "loc \<Rightarrow> path \<Rightarrow> fs \<Rightarrow> (io_kind + unit) \<times> fs" where
  "fs_unlink cwd p fs =
     (case lookup_node fs False cwd p of
        Inl k \<Rightarrow> (Inl k, fs)
      | Inr (l, n) \<Rightarrow>
          if is_dir_node n then (Inl IsADirectoryKind, fs) else (Inr (), fs_del l fs))"

definition fs_chmod :: "loc \<Rightarrow> path \<Rightarrow> mode \<Rightarrow> fs \<Rightarrow> (io_kind + unit) \<times> fs" where
  "fs_chmod cwd p m fs =
     (case lookup_node fs True cwd p of
        Inl k \<Rightarrow> (Inl k, fs)
      | Inr (l, n) \<Rightarrow> (Inr (), fs_put l (set_node_mode m n) fs))"

definition fs_append :: "loc \<Rightarrow> bytes \<Rightarrow> fs \<Rightarrow> fs" where
  "fs_append l bs fs =
     (case fs_get fs l of Some (FileNode m c) \<Rightarrow> fs_put l (FileNode m (c @ bs)) fs | _ \<Rightarrow> fs)"

text \<open>The names in a directory, in the order the system happens to list them.\<close>

definition fs_children :: "fs \<Rightarrow> loc \<Rightarrow> bytes list" where
  "fs_children fs l =
     List.map_filter (\<lambda>(k, n). if k \<noteq> [] \<and> butlast k = l then Some (last k) else None) fs"

section \<open>Well-formed trees\<close>

text \<open>No location twice, a root directory, and every node in a directory.\<close>

definition fs_ok :: "fs \<Rightarrow> bool" where
  "fs_ok fs \<longleftrightarrow> distinct (map fst fs) \<and> is_dir_at fs [] \<and>
     (\<forall>l x n. fs_get fs (l @ [x]) = Some n \<longrightarrow> is_dir_at fs l)"

text \<open>
  The order on trees every operation that only creates keeps: what there was is still there,
  unchanged but for permission bits.
\<close>

fun same_node :: "node \<Rightarrow> node \<Rightarrow> bool" where
  "same_node (FileNode m c) n = (\<exists>m'. n = FileNode m' c)"
| "same_node (DirNode m) n = (\<exists>m'. n = DirNode m')"
| "same_node (SymlinkNode t) n = (n = SymlinkNode t)"
| "same_node (OtherNode m) n = (\<exists>m'. n = OtherNode m')"

lemma same_node_refl [simp]: "same_node n n"
  by (cases n) auto

lemma same_node_trans: "same_node a b \<Longrightarrow> same_node b c \<Longrightarrow> same_node a c"
  by (cases a) auto

lemma same_node_chmod [simp]: "same_node n (set_node_mode m n)"
  by (cases n) auto

lemma same_node_dir [simp]: "same_node n n' \<Longrightarrow> is_dir_node n' = is_dir_node n"
  by (cases n) auto

definition fs_extends :: "fs \<Rightarrow> fs \<Rightarrow> bool" where
  "fs_extends fs fs' \<longleftrightarrow>
     (\<forall>l n. fs_get fs l = Some n \<longrightarrow> (\<exists>n'. fs_get fs' l = Some n' \<and> same_node n n'))"

lemma fs_extends_refl [simp]: "fs_extends fs fs"
  by (auto simp: fs_extends_def)

lemma fs_extends_trans: "fs_extends a b \<Longrightarrow> fs_extends b c \<Longrightarrow> fs_extends a c"
  unfolding fs_extends_def by (meson same_node_trans)

section \<open>Resolution in a tree that grows\<close>

lemma fs_extends_get:
  "fs_extends fs fs' \<Longrightarrow> fs_get fs l = Some n \<Longrightarrow> \<exists>n'. fs_get fs' l = Some n' \<and> same_node n n'"
  by (simp add: fs_extends_def)

text \<open>
  What a path resolves to does not change when the tree grows, unless a link appears at the
  very place that was free.
\<close>

lemma walk_extends:
  assumes "fs_extends fs fs'" and "walk fuel fs follow cur cs = Inr l"
    and "fs_get fs l \<noteq> None \<or> (\<forall>t. fs_get fs' l \<noteq> Some (SymlinkNode t))"
  shows "walk fuel fs' follow cur cs = Inr l"
  using assms
proof (induction fuel fs follow cur cs rule: walk.induct)
  case (5 fuel fs follow cur x cs)
  show ?case
  proof (cases "fs_get fs (cur @ [x])")
    case None
    with "5.prems" have "cs = []" "l = cur @ [x]" by (auto split: if_splits)
    with None "5.prems"(3) show ?thesis by (cases "fs_get fs' l") (auto split: node.splits)
  next
    case (Some n)
    with "5.prems"(1) obtain n' where n': "fs_get fs' (cur @ [x]) = Some n'" "same_node n n'"
      by (auto dest: fs_extends_get)
    with Some 5 show ?thesis
      by (cases n) (auto split: if_splits nat.splits)
  qed
qed auto

lemma resolve_extends:
  assumes "fs_extends fs fs'" and "resolve fs follow cwd p = Inr l"
    and "fs_get fs l \<noteq> None \<or> (\<forall>t. fs_get fs' l \<noteq> Some (SymlinkNode t))"
  shows "resolve fs' follow cwd p = Inr l"
  using assms by (auto simp: resolve_def intro: walk_extends split: if_splits)

lemma lookup_node_Inr_iff:
  "lookup_node fs follow cwd p = Inr (l, n) \<longleftrightarrow>
     resolve fs follow cwd p = Inr l \<and> fs_get fs l = Some n"
  by (auto simp: lookup_node_def split: sum.splits option.splits)

lemma lookup_node_extends:
  assumes "fs_extends fs fs'" and "lookup_node fs follow cwd p = Inr (l, n)"
  shows "\<exists>n'. lookup_node fs' follow cwd p = Inr (l, n') \<and> same_node n n'"
  using assms resolve_extends [OF assms(1)] fs_extends_get [OF assms(1)]
  by (fastforce simp: lookup_node_Inr_iff)

text \<open>A path that does not end in a link leads to the same place either way.\<close>

lemma walk_follow:
  assumes "walk fuel fs False cur cs = Inr l" and "\<forall>t. fs_get fs l \<noteq> Some (SymlinkNode t)"
  shows "walk fuel fs True cur cs = Inr l"
  using assms
proof (induction fuel fs False cur cs rule: walk.induct)
  case (5 fuel fs cur x cs)
  then show ?case
    by (auto split: option.splits node.splits if_splits nat.splits)
qed auto

lemma lookup_node_follow:
  assumes "lookup_node fs False cwd p = Inr (l, n)" and "\<not> is_symlink_node n"
  shows "lookup_node fs True cwd p = Inr (l, n)"
  using assms walk_follow [of max_symlinks fs cwd p l]
  by (cases n) (auto simp: lookup_node_Inr_iff resolve_def split: if_splits)

lemma resolve_file_follow:
  assumes "resolve fs False cwd p = Inr l" and "fs_get fs l = Some (FileNode m c)"
  shows "resolve fs True cwd p = Inr l"
  using lookup_node_follow [of fs cwd p l "FileNode m c"] assms by (simp add: lookup_node_Inr_iff)

text \<open>What a newly created node looks like from its path.\<close>

lemma lookup_node_put_new:
  assumes "resolve fs False cwd p = Inr l" and "fs_get fs l = None"
    and "\<not> is_symlink_node n"
  shows "lookup_node (fs_put l n fs) False cwd p = Inr (l, n)"
proof -
  have "fs_extends fs (fs_put l n fs)" using assms(2) by (auto simp: fs_extends_def)
  moreover have "\<forall>t. fs_get (fs_put l n fs) l \<noteq> Some (SymlinkNode t)" using assms(3) by auto
  ultimately show ?thesis
    using resolve_extends [of fs "fs_put l n fs" False cwd p l] assms(1)
    by (simp add: lookup_node_Inr_iff)
qed

section \<open>Every operation keeps trees well-formed\<close>

lemma is_dir_at_iff: "is_dir_at fs l \<longleftrightarrow> (\<exists>m. fs_get fs l = Some (DirNode m))"
  by (auto simp: is_dir_at_def split: option.splits elim: is_dir_node.elims)

lemma fs_okD:
  assumes "fs_ok fs"
  shows "is_dir_at fs []" and "fs_get fs (l @ [x]) = Some n \<Longrightarrow> is_dir_at fs l"
  using assms by (auto simp: fs_ok_def)

text \<open>In a well-formed tree a path is resolved from directory to directory.\<close>

lemma walk_in_dir:
  assumes "fs_ok fs" and "walk fuel fs follow cur cs = Inr l" and "is_dir_at fs cur"
  shows "l = [] \<or> is_dir_at fs (butlast l)"
  using assms
proof (induction fuel fs follow cur cs rule: walk.induct)
  case (1 fuel fs follow cur)
  then show ?case
    by (cases cur rule: rev_cases) (auto simp: is_dir_at_iff dest: fs_okD(2))
next
  case (4 fuel fs follow cur cs)
  then have "is_dir_at fs (butlast cur)"
    by (cases cur rule: rev_cases) (auto simp: is_dir_at_iff dest: fs_okD(2))
  with 4 show ?case by simp
next
  case (5 fuel fs follow cur x cs)
  then show ?case
    by (auto simp: is_dir_at_iff split: option.splits node.splits if_splits nat.splits)
qed (auto dest: fs_okD)

lemma fs_ok_put:
  assumes "fs_ok fs" and "l = [] \<or> is_dir_at fs (butlast l)"
    and "is_dir_at fs l \<longrightarrow> is_dir_node n" and "l = [] \<longrightarrow> is_dir_node n"
  shows "fs_ok (fs_put l n fs)"
proof -
  have d: "is_dir_at (fs_put l n fs) k" if "is_dir_at fs k" for k
    using that assms(3) by (auto simp: is_dir_at_def)
  have "is_dir_at (fs_put l n fs) k" if "fs_get (fs_put l n fs) (k @ [x]) = Some n'" for k x n'
    using that assms(1,2) d by (auto dest: fs_okD split: if_splits)
  moreover have "distinct (map fst (fs_put l n fs))"
    using assms(1) by (simp add: fs_ok_def fs_put_def distinct_update)
  ultimately show ?thesis using d assms(1) by (auto simp: fs_ok_def)
qed

lemma fs_ok_del:
  assumes "fs_ok fs" and "\<not> is_dir_at fs l"
  shows "fs_ok (fs_del l fs)"
proof -
  have d: "is_dir_at (fs_del l fs) k" if "is_dir_at fs k" for k
    using that assms(2) by (auto simp: is_dir_at_def)
  have "distinct (map fst (fs_del l fs))"
    using assms(1) by (simp add: fs_ok_def fs_del_def distinct_delete)
  then show ?thesis using assms(1) d by (auto simp: fs_ok_def dest: fs_okD split: if_splits)
qed

lemma fs_ok_create_new:
  assumes "fs_ok fs" and "is_dir_at fs cwd" and run: "fs_create_new cwd p n fs = (r, fs')"
  shows "fs_ok fs'"
proof (cases "fs' = fs")
  case False
  with run obtain l where l: "resolve fs False cwd p = Inr l" "fs_get fs l = None"
    and fs': "fs' = fs_put l n fs"
    by (auto simp: fs_create_new_def split: sum.splits if_splits)
  have "l = [] \<or> is_dir_at fs (butlast l)"
    using walk_in_dir [OF assms(1) _ assms(2)] l(1) by (auto simp: resolve_def split: if_splits)
  moreover have "l \<noteq> []" using l(2) fs_okD(1) [OF assms(1)] by (auto simp: is_dir_at_def)
  ultimately show ?thesis
    using assms(1) l(2) by (auto simp: fs' is_dir_at_def intro!: fs_ok_put)
qed (simp add: assms)

lemma fs_ok_unlink:
  "fs_ok fs \<Longrightarrow> fs_unlink cwd p fs = (r, fs') \<Longrightarrow> fs_ok fs'"
  by (auto simp: fs_unlink_def lookup_node_def is_dir_at_def intro!: fs_ok_del
      split: sum.splits prod.splits option.splits if_splits)

lemma is_dir_set_mode [simp]: "is_dir_node (set_node_mode m n) = is_dir_node n"
  by (cases n) auto

lemma fs_ok_replace:
  assumes "fs_ok fs" and "fs_get fs l = Some n" and "is_dir_node n' = is_dir_node n"
  shows "fs_ok (fs_put l n' fs)"
proof (rule fs_ok_put [OF assms(1)])
  show "l = [] \<or> is_dir_at fs (butlast l)"
    using assms by (cases l rule: rev_cases) (auto dest: fs_okD)
  show "is_dir_at fs l \<longrightarrow> is_dir_node n'" using assms by (simp add: is_dir_at_def)
  show "l = [] \<longrightarrow> is_dir_node n'" using assms fs_okD(1) [OF assms(1)] by (auto simp: is_dir_at_def)
qed

lemma fs_ok_chmod: "fs_ok fs \<Longrightarrow> fs_chmod cwd p m fs = (r, fs') \<Longrightarrow> fs_ok fs'"
  by (auto simp: fs_chmod_def lookup_node_def intro!: fs_ok_replace
      split: sum.splits prod.splits option.splits)

lemma fs_ok_append: "fs_ok fs \<Longrightarrow> fs_ok (fs_append l bs fs)"
  by (auto simp: fs_append_def intro!: fs_ok_replace split: option.splits node.splits)

section \<open>Trees that may also lose some files\<close>

text \<open>
  A weaker order, for operations that may also remove some files: what there was is still
  there, except for files of which \<open>B\<close> holds.
\<close>

definition fs_spares :: "(bytes \<Rightarrow> bool) \<Rightarrow> fs \<Rightarrow> fs \<Rightarrow> bool" where
  "fs_spares B fs fs' \<longleftrightarrow>
     (\<forall>l n. fs_get fs l = Some n \<longrightarrow> \<not> (\<exists>m c. n = FileNode m c \<and> B c) \<longrightarrow>
        (\<exists>n'. fs_get fs' l = Some n' \<and> same_node n n'))"

lemma fs_extends_spares: "fs_extends fs fs' \<Longrightarrow> fs_spares B fs fs'"
  by (auto simp: fs_extends_def fs_spares_def)

lemma fs_spares_trans:
  assumes "fs_spares B a b" and "fs_spares B b c"
  shows "fs_spares B a c"
  unfolding fs_spares_def
proof (intro allI impI)
  fix l n
  assume n: "fs_get a l = Some n" "\<not> (\<exists>m c. n = FileNode m c \<and> B c)"
  with assms(1) obtain n' where n': "fs_get b l = Some n'" "same_node n n'"
    unfolding fs_spares_def by blast
  have "\<not> (\<exists>m c. n' = FileNode m c \<and> B c)" using n(2) n'(2) by (cases n) auto
  with assms(2) n' show "\<exists>n''. fs_get c l = Some n'' \<and> same_node n n''"
    unfolding fs_spares_def by (meson same_node_trans)
qed

lemma walk_spares:
  assumes "fs_spares B fs fs'" and "walk fuel fs follow cur cs = Inr l"
    and "\<forall>t. fs_get fs' l \<noteq> Some (SymlinkNode t) \<or> fs_get fs l = fs_get fs' l"
  shows "walk fuel fs' follow cur cs = Inr l"
  using assms
proof (induction fuel fs follow cur cs rule: walk.induct)
  case (5 fuel fs follow cur x cs)
  show ?case
  proof (cases "fs_get fs (cur @ [x])")
    case None
    with "5.prems" have "cs = []" "l = cur @ [x]" by (auto split: if_splits)
    with None "5.prems"(3) show ?thesis by (cases "fs_get fs' l") (auto split: node.splits)
  next
    case (Some n)
    show ?thesis
    proof (cases "is_file_node n")
      case True
      with Some "5.prems" have "cs = []" "l = cur @ [x]"
        by (auto elim!: is_file_node.elims split: if_splits)
      with Some True "5.prems"(3) show ?thesis
        by (cases "fs_get fs' l") (auto split: node.splits)
    next
      case False
      with Some "5.prems"(1) obtain n' where n': "fs_get fs' (cur @ [x]) = Some n'" "same_node n n'"
        unfolding fs_spares_def by fastforce
      with Some False 5 show ?thesis
        by (cases n) (auto split: if_splits nat.splits)
    qed
  qed
qed auto

lemma lookup_node_spares:
  assumes "fs_spares B fs fs'" and "lookup_node fs follow cwd p = Inr (l, FileNode m c)" and "\<not> B c"
  shows "\<exists>m'. lookup_node fs' follow cwd p = Inr (l, FileNode m' c)"
proof -
  from assms(2) have l: "resolve fs follow cwd p = Inr l" "fs_get fs l = Some (FileNode m c)"
    by (simp_all add: lookup_node_Inr_iff)
  with assms(1,3) obtain m' where m': "fs_get fs' l = Some (FileNode m' c)"
    unfolding fs_spares_def by fastforce
  with walk_spares [OF assms(1)] l have "resolve fs' follow cwd p = Inr l"
    by (auto simp: resolve_def split: if_splits)
  with m' show ?thesis by (simp add: lookup_node_Inr_iff)
qed

lemma fs_spares_del:
  "fs_get fs l = Some (FileNode m c) \<Longrightarrow> B c \<Longrightarrow> fs_spares B fs (fs_del l fs)"
  by (auto simp: fs_spares_def)

section \<open>Directories and their entries\<close>

text \<open>In a directory, a name is a node of it.\<close>

lemma walk_snoc:
  "walk fuel fs True cur p = Inr l \<Longrightarrow> is_dir_at fs l \<Longrightarrow>
     follow \<longrightarrow> (\<forall>t. fs_get fs (l @ [x]) \<noteq> Some (SymlinkNode t)) \<Longrightarrow>
     walk fuel fs follow cur (p @ [Normal x]) = Inr (l @ [x])"
proof (induction fuel fs True cur p rule: walk.induct)
  case (1 fuel fs cur)
  then show ?case
    by (auto split: option.splits node.splits)
next
  case (5 fuel fs cur y cs)
  then show ?case
    by (auto simp: is_dir_at_iff split: option.splits node.splits if_splits nat.splits)
qed auto

lemma lookup_node_child:
  assumes "lookup_node fs True cwd p = Inr (l, DirNode m)"
    and "follow \<longrightarrow> (\<forall>t. fs_get fs (l @ [x]) \<noteq> Some (SymlinkNode t))"
  shows "resolve fs follow cwd (p @ [Normal x]) = Inr (l @ [x])"
    and "lookup_node fs follow cwd (p @ [Normal x]) =
      (case fs_get fs (l @ [x]) of None \<Rightarrow> Inl NotFoundKind | Some n \<Rightarrow> Inr (l @ [x], n))"
proof -
  show "resolve fs follow cwd (p @ [Normal x]) = Inr (l @ [x])"
    using walk_snoc [of max_symlinks fs cwd p l follow x] assms
    by (auto simp: lookup_node_Inr_iff resolve_def is_dir_at_iff split: if_splits)
  then show "lookup_node fs follow cwd (p @ [Normal x]) =
      (case fs_get fs (l @ [x]) of None \<Rightarrow> Inl NotFoundKind | Some n \<Rightarrow> Inr (l @ [x], n))"
    by (simp add: lookup_node_def)
qed

lemma fs_children_Cons:
  "fs_children ((k, n) # fs) l =
     (if k \<noteq> [] \<and> butlast k = l then last k # fs_children fs l else fs_children fs l)"
  by (simp add: fs_children_def List.map_filter_simps)

lemma fs_children_Nil [simp]: "fs_children [] l = []"
  by (simp add: fs_children_def List.map_filter_simps)

lemma set_fs_children: "x \<in> set (fs_children fs l) \<longleftrightarrow> fs_get fs (l @ [x]) \<noteq> None"
proof (induction fs)
  case (Cons kn fs)
  obtain k n where kn: "kn = (k, n)" by fastforce
  have "k \<noteq> [] \<and> butlast k = l \<and> last k = x \<longleftrightarrow> k = l @ [x]"
    by (cases k rule: rev_cases) auto
  then show ?case using Cons by (auto simp: kn fs_children_Cons fs_get_def)
qed (simp add: fs_get_def)

lemma distinct_fs_children: "distinct (map fst fs) \<Longrightarrow> distinct (fs_children fs l)"
proof (induction fs)
  case (Cons kn fs)
  obtain k n where kn: "kn = (k, n)" by fastforce
  with Cons.prems have "fs_get fs k = None" by (simp add: fs_get_def map_of_eq_None_iff)
  then have "k \<noteq> [] \<Longrightarrow> last k \<notin> set (fs_children fs (butlast k))" by (simp add: set_fs_children)
  with Cons show ?case by (auto simp: kn fs_children_Cons)
qed simp

end
