(* ===== verification/World.thy ===== *)
theory World
  imports FileSystem
begin

unbundle bit_operations_syntax

text \<open>
  The world a run of the program acts on, and the system calls it makes. Every call can fail
  for reasons the model does not compute (permissions, a full disk, a failing device): the
  world holds, for each call by its number, the fault it meets, if any, and every theorem
  that does not assume the absence of faults holds for all of them. The calls are those of
  \<open>std::fs\<close>, \<open>std::env\<close>, \<open>std::io\<close> and \<open>getrandom\<close>, none of them code under \<open>src/\<close>.
\<close>

text \<open>
  A fault: the error reported and, for a write, how many bytes were written before it. The
  random source gives, for each call by its number, nothing (the call fails) or an endless
  supply of bytes. The terminal is what can still be read from \<open>/dev/tty\<close>, if it can be
  opened at all, and its mode, which the program \<open>/bin/stty\<close> reports and changes: given its
  arguments and the mode, \<open>w_stty\<close> is its success, its output and the mode after. How
  the system displays paths and I/O errors is part of the world too.
\<close>

record world =
  w_fs :: fs
  w_cwd :: loc
  w_env :: "bytes \<Rightarrow> bytes option"
  w_umask :: mode
  w_random :: "nat \<Rightarrow> (nat \<Rightarrow> byte) option"
  w_random_calls :: nat
  w_faults :: "nat \<Rightarrow> (io_kind \<times> nat) option"
  w_calls :: nat
  w_stdin :: bytes
  w_stdin_tty :: bool
  w_stdout_tty :: bool
  w_stderr_tty :: bool
  w_tty :: "bytes option"
  w_tty_mode :: bytes
  w_stty :: "bytes list \<Rightarrow> bytes \<Rightarrow> (bool \<times> bytes) \<times> bytes"
  w_stdout :: bytes
  w_stderr :: bytes
  w_args :: "bytes list"
  w_show_path :: "path \<Rightarrow> bytes"
  w_show_io :: "io_kind \<Rightarrow> string"

type_synonym 'a io = "(world, 'a) st"

definition tick :: "world \<Rightarrow> world" where
  "tick w = w\<lparr>w_calls := Suc (w_calls w)\<rparr>"

definition no_faults :: "world \<Rightarrow> bool" where
  "no_faults w \<longleftrightarrow> (\<forall>n. w_faults w n = None)"

text \<open>A call that reads or changes the tree: the fault for it, or what the tree says.\<close>

definition os_call :: "(world \<Rightarrow> (io_kind + 'a) \<times> fs) \<Rightarrow> 'a io" where
  "os_call f w =
     (case w_faults w (w_calls w) of
        Some (k, _) \<Rightarrow> (Err (Io k), tick w)
      | None \<Rightarrow>
          (case f w of
             (Inl k, fs') \<Rightarrow> (Err (Io k), (tick w)\<lparr>w_fs := fs'\<rparr>)
           | (Inr x, fs') \<Rightarrow> (Ok x, (tick w)\<lparr>w_fs := fs'\<rparr>)))"

definition os_query :: "(world \<Rightarrow> io_kind + 'a) \<Rightarrow> 'a io" where
  "os_query f = os_call (\<lambda>w. (f w, w_fs w))"

text \<open>\<open>fs::symlink_metadata\<close>, \<open>fs::metadata\<close>, \<open>Path::exists\<close>\<close>

definition symlink_metadata :: "path \<Rightarrow> node io" where
  "symlink_metadata p = os_query (\<lambda>w. map_sum id snd (lookup_node (w_fs w) False (w_cwd w) p))"

definition metadata :: "path \<Rightarrow> node io" where
  "metadata p = os_query (\<lambda>w. map_sum id snd (lookup_node (w_fs w) True (w_cwd w) p))"

definition path_exists :: "path \<Rightarrow> bool io" where
  "path_exists p = bind_st (attempt (metadata p)) (\<lambda>r.
     ret (case r of Inl _ \<Rightarrow> False | Inr _ \<Rightarrow> True))"

definition path_is_dir :: "path \<Rightarrow> bool io" where
  "path_is_dir p = bind_st (attempt (metadata p)) (\<lambda>r.
     ret (case r of Inl _ \<Rightarrow> False | Inr n \<Rightarrow> is_dir_node n))"

text \<open>\<open>File::open\<close>, \<open>File::metadata\<close> and \<open>read_to_end\<close> on at most \<open>limit\<close> bytes\<close>

definition file_open :: "path \<Rightarrow> loc io" where
  "file_open p = os_query (\<lambda>w. map_sum id fst (lookup_node (w_fs w) True (w_cwd w) p))"

definition file_metadata_len :: "loc \<Rightarrow> nat io" where
  "file_metadata_len l = os_query (\<lambda>w.
     case fs_get (w_fs w) l of None \<Rightarrow> Inl OtherKind | Some n \<Rightarrow> Inr (node_len n))"

definition file_read_to_end :: "nat \<Rightarrow> loc \<Rightarrow> bytes io" where
  "file_read_to_end limit l = os_query (\<lambda>w.
     case fs_get (w_fs w) l of
       Some (FileNode m c) \<Rightarrow> Inr (take limit c)
     | Some (DirNode m) \<Rightarrow> Inl IsADirectoryKind
     | _ \<Rightarrow> Inl OtherKind)"

text \<open>
  \<open>OpenOptions\<close> with \<open>create_new\<close>, \<open>fs::create_dir\<close>, \<open>fs::remove_file\<close>,
  \<open>fs::set_permissions\<close>
\<close>

definition file_create_new :: "mode \<Rightarrow> path \<Rightarrow> loc io" where
  "file_create_new m p = os_call (\<lambda>w.
     fs_create_new (w_cwd w) p (FileNode (m AND NOT (w_umask w)) []) (w_fs w))"

text \<open>The default mode of a directory is octal 777, here \<open>0x1FF\<close>, less the umask.\<close>

definition create_dir :: "path \<Rightarrow> unit io" where
  "create_dir p = os_call (\<lambda>w.
     case fs_create_new (w_cwd w) p (DirNode (0x1FF AND NOT (w_umask w))) (w_fs w) of
       (r, fs') \<Rightarrow> (map_sum id (\<lambda>_. ()) r, fs'))"

definition remove_file :: "path \<Rightarrow> unit io" where
  "remove_file p = os_call (\<lambda>w. fs_unlink (w_cwd w) p (w_fs w))"

definition set_permissions :: "path \<Rightarrow> mode \<Rightarrow> unit io" where
  "set_permissions p m = os_call (\<lambda>w. fs_chmod (w_cwd w) p m (w_fs w))"

text \<open>\<open>write_all\<close> to a file; a fault leaves the bytes written before it. \<open>sync_all\<close>.\<close>

definition file_write_all :: "loc \<Rightarrow> bytes \<Rightarrow> unit io" where
  "file_write_all l bs w =
     (case w_faults w (w_calls w) of
        Some (k, n) \<Rightarrow> (Err (Io k), (tick w)\<lparr>w_fs := fs_append l (take n bs) (w_fs w)\<rparr>)
      | None \<Rightarrow> (Ok (), (tick w)\<lparr>w_fs := fs_append l bs (w_fs w)\<rparr>))"

definition file_sync_all :: "loc \<Rightarrow> unit io" where
  "file_sync_all l = os_query (\<lambda>w. Inr ())"

text \<open>\<open>fs::read_dir\<close>: the paths of the entries, as the directory lists them.\<close>

definition read_dir :: "path \<Rightarrow> path list io" where
  "read_dir p = os_query (\<lambda>w.
     case lookup_node (w_fs w) True (w_cwd w) p of
       Inl k \<Rightarrow> Inl k
     | Inr (l, n) \<Rightarrow>
         if is_dir_node n then Inr (map (\<lambda>x. path_join p [Normal x]) (fs_children (w_fs w) l))
         else Inl NotADirectoryKind)"

text \<open>\<open>env::var_os\<close>\<close>

definition env_var :: "string \<Rightarrow> bytes option io" where
  "env_var name = get_state (\<lambda>w. w_env w (ascii name))"

text \<open>
  \<open>getrandom::getrandom\<close> on a buffer of \<open>n\<close> bytes. The crate returns at once for an empty buffer;
  here an empty request, which only a letter that fills its bucket makes, counts as a call and
  may fail like any other. So theorems for all worlds cover more runs than there are, and those
  on success ask for one supply more.
\<close>

definition getrandom :: "nat \<Rightarrow> (world \<Rightarrow> bytes option \<times> world)" where
  "getrandom n w =
     (map_option (\<lambda>g. map g [0..<n]) (w_random w (w_random_calls w)),
      w\<lparr>w_random_calls := Suc (w_random_calls w)\<rparr>)"

section \<open>How the calls behave without faults\<close>

lemma tick_simps [simp]:
  "w_fs (tick w) = w_fs w" "w_cwd (tick w) = w_cwd w" "w_env (tick w) = w_env w"
  "w_umask (tick w) = w_umask w" "w_random (tick w) = w_random w"
  "w_random_calls (tick w) = w_random_calls w" "w_faults (tick w) = w_faults w"
  "w_calls (tick w) = Suc (w_calls w)" "w_stdin (tick w) = w_stdin w"
  "w_stdin_tty (tick w) = w_stdin_tty w" "w_stdout_tty (tick w) = w_stdout_tty w"
  "w_stderr_tty (tick w) = w_stderr_tty w" "w_tty_mode (tick w) = w_tty_mode w"
  "w_stty (tick w) = w_stty w" "w_tty (tick w) = w_tty w" "w_stdout (tick w) = w_stdout w"
  "w_stderr (tick w) = w_stderr w" "w_args (tick w) = w_args w"
  "w_show_path (tick w) = w_show_path w" "w_show_io (tick w) = w_show_io w"
  by (simp_all add: tick_def)

lemma no_faults_simps [simp]:
  "no_faults w \<Longrightarrow> w_faults w n = None"
  "no_faults (tick w) = no_faults w"
  "no_faults (w\<lparr>w_fs := fs\<rparr>) = no_faults w"
  "no_faults (w\<lparr>w_random_calls := k\<rparr>) = no_faults w"
  "no_faults (w\<lparr>w_stdout := out\<rparr>) = no_faults w"
  by (simp_all add: no_faults_def)

lemma os_call_Ok:
  "no_faults w \<Longrightarrow> f w = (Inr x, fs') \<Longrightarrow> os_call f w = (Ok x, (tick w)\<lparr>w_fs := fs'\<rparr>)"
  by (simp add: os_call_def)

lemma os_call_Err:
  "no_faults w \<Longrightarrow> f w = (Inl k, fs') \<Longrightarrow> os_call f w = (Err (Io k), (tick w)\<lparr>w_fs := fs'\<rparr>)"
  by (simp add: os_call_def)

lemma tick_fs [simp]: "(tick w)\<lparr>w_fs := w_fs w\<rparr> = tick w"
  by (simp add: tick_def)

lemma os_query_Ok: "no_faults w \<Longrightarrow> f w = Inr x \<Longrightarrow> os_query f w = (Ok x, tick w)"
  by (simp add: os_query_def os_call_Ok)

lemma os_query_Err: "no_faults w \<Longrightarrow> f w = Inl k \<Longrightarrow> os_query f w = (Err (Io k), tick w)"
  by (simp add: os_query_def os_call_Err)

lemma getrandom_simps:
  "w_random w (w_random_calls w) = Some g \<Longrightarrow>
     getrandom n w = (Some (map g [0..<n]), w\<lparr>w_random_calls := Suc (w_random_calls w)\<rparr>)"
  "w_random w (w_random_calls w) = None \<Longrightarrow>
     getrandom n w = (None, w\<lparr>w_random_calls := Suc (w_random_calls w)\<rparr>)"
  by (simp_all add: getrandom_def)

section \<open>What every call leaves alone\<close>

text \<open>What can still be read from the terminal; it never gets more.\<close>

definition tty_left :: "world \<Rightarrow> nat" where
  "tty_left w = (case w_tty w of None \<Rightarrow> 0 | Some s \<Rightarrow> length s)"

lemma tty_left_simps [simp]:
  "tty_left (tick w) = tty_left w"
  "tty_left (w\<lparr>w_fs := fs\<rparr>) = tty_left w"
  "tty_left (w\<lparr>w_random_calls := k\<rparr>) = tty_left w"
  "tty_left (w\<lparr>w_stdin := inp\<rparr>) = tty_left w"
  "tty_left (w\<lparr>w_stdout := out\<rparr>) = tty_left w"
  "tty_left (w\<lparr>w_stderr := err\<rparr>) = tty_left w"
  "tty_left (w\<lparr>w_tty_mode := m\<rparr>) = tty_left w"
  by (simp_all add: tty_left_def)

text \<open>
  A call that only looks keeps the tree. A call that creates keeps everything that was in the
  tree. Both keep the process's own settings.
\<close>

definition same_process :: "world \<Rightarrow> world \<Rightarrow> bool" where
  "same_process w w' \<longleftrightarrow> w_cwd w' = w_cwd w \<and> w_env w' = w_env w \<and> w_umask w' = w_umask w
     \<and> w_faults w' = w_faults w \<and> w_random w' = w_random w \<and> w_calls w \<le> w_calls w'
     \<and> tty_left w' \<le> tty_left w"

definition looks :: "world \<Rightarrow> world \<Rightarrow> bool" where
  "looks w w' \<longleftrightarrow> same_process w w' \<and> w_fs w' = w_fs w \<and> w_stdout w' = w_stdout w"

definition extends :: "world \<Rightarrow> world \<Rightarrow> bool" where
  "extends w w' \<longleftrightarrow> same_process w w' \<and> fs_extends (w_fs w) (w_fs w')"

interpretation looking: frame looks
  by unfold_locales (auto simp: looks_def same_process_def)

interpretation extending: frame extends
  by unfold_locales (auto simp: extends_def same_process_def intro: fs_extends_trans)

lemma looks_extends: "looks w w' \<Longrightarrow> extends w w'"
  by (simp add: looks_def extends_def)

lemma keeps_looks_extends: "keeps looks m \<Longrightarrow> keeps extends m"
  by (auto simp: keeps_def intro: looks_extends)

lemma keeps_os_query [intro, simp]: "keeps looks (os_query f)"
  by (rule keepsI) (auto simp: os_query_def os_call_def looks_def same_process_def
      split: option.splits sum.splits)

lemma keeps_queries [simp]:
  "keeps looks (symlink_metadata p)" "keeps looks (metadata p)" "keeps looks (file_open p)"
  "keeps looks (file_metadata_len l)" "keeps looks (file_read_to_end n l)"
  "keeps looks (file_sync_all l)" "keeps looks (read_dir p)"
  by (simp_all add: symlink_metadata_def metadata_def file_open_def file_metadata_len_def
      file_read_to_end_def file_sync_all_def read_dir_def)

lemma keeps_path_exists [simp]: "keeps looks (path_exists p)"
  unfolding path_exists_def by (intro looking.keeps_rules) auto

lemma keeps_path_is_dir [simp]: "keeps looks (path_is_dir p)"
  unfolding path_is_dir_def by (intro looking.keeps_rules) auto

lemma keeps_env_var [simp]: "keeps looks (env_var n)"
  by (simp add: env_var_def)

lemma keeps_os_call_extends:
  assumes "\<And>w r fs'. f w = (r, fs') \<Longrightarrow> fs_extends (w_fs w) fs'"
  shows "keeps extends (os_call f)"
  using assms
  by (intro keepsI) (fastforce simp: os_call_def extends_def same_process_def
      split: option.splits sum.splits prod.splits)

lemma fs_create_new_extends: "fs_create_new cwd p n fs = (r, fs') \<Longrightarrow> fs_extends fs fs'"
  by (auto simp: fs_create_new_def fs_extends_def split: sum.splits if_splits)

lemma fs_chmod_extends: "fs_chmod cwd p m fs = (r, fs') \<Longrightarrow> fs_extends fs fs'"
  by (auto simp: fs_chmod_def fs_extends_def lookup_node_def
      split: sum.splits prod.splits option.splits if_splits)

lemma keeps_creating [simp]:
  "keeps extends (file_create_new m p)" "keeps extends (create_dir p)"
  "keeps extends (set_permissions p m)"
  unfolding file_create_new_def create_dir_def set_permissions_def
  by (rule keeps_os_call_extends;
      auto dest: fs_create_new_extends fs_chmod_extends split: prod.splits)+

section \<open>Successful calls, read backwards\<close>

lemma tick_upd: "tick (w\<lparr>w_fs := fs\<rparr>) = (tick w)\<lparr>w_fs := fs\<rparr>"
  by (simp add: tick_def)

lemma looks_fs: "keeps looks m \<Longrightarrow> m w = (r, w') \<Longrightarrow> w_fs w' = w_fs w \<and> w_cwd w' = w_cwd w"
  by (auto simp: looks_def same_process_def dest: keepsD)

text \<open>What the tree was and is when a call has succeeded, with faults possible.\<close>

lemma os_call_Ok_iff:
  "os_call f w = (Ok x, w') \<longleftrightarrow>
     w_faults w (w_calls w) = None \<and> (\<exists>fs'. f w = (Inr x, fs') \<and> w' = (tick w)\<lparr>w_fs := fs'\<rparr>)"
  by (auto simp: os_call_def split: option.splits sum.splits prod.splits)

lemma os_query_Ok_iff:
  "os_query f w = (Ok x, w') \<longleftrightarrow>
     w_faults w (w_calls w) = None \<and> f w = Inr x \<and> w' = tick w"
  by (auto simp: os_query_def os_call_Ok_iff)

lemma map_sum_Inr_iff: "map_sum id f r = Inr y \<longleftrightarrow> (\<exists>x. r = Inr x \<and> y = f x)"
  by (cases r) auto

lemma symlink_metadata_Ok_iff:
  "symlink_metadata p w = (Ok n, w') \<longleftrightarrow>
     w_faults w (w_calls w) = None \<and> w' = tick w \<and>
     (\<exists>l. lookup_node (w_fs w) False (w_cwd w) p = Inr (l, n))"
  by (auto simp: symlink_metadata_def os_query_Ok_iff map_sum_Inr_iff)

lemma metadata_Ok_iff:
  "metadata p w = (Ok n, w') \<longleftrightarrow>
     w_faults w (w_calls w) = None \<and> w' = tick w \<and>
     (\<exists>l. lookup_node (w_fs w) True (w_cwd w) p = Inr (l, n))"
  by (auto simp: metadata_def os_query_Ok_iff map_sum_Inr_iff)

lemma file_open_Ok_iff:
  "file_open p w = (Ok l, w') \<longleftrightarrow>
     w_faults w (w_calls w) = None \<and> w' = tick w \<and>
     (\<exists>n. lookup_node (w_fs w) True (w_cwd w) p = Inr (l, n))"
  by (auto simp: file_open_def os_query_Ok_iff map_sum_Inr_iff)

lemma file_create_new_Ok_iff:
  "file_create_new m p w = (Ok l, w') \<longleftrightarrow>
     w_faults w (w_calls w) = None \<and> resolve (w_fs w) False (w_cwd w) p = Inr l \<and>
     fs_get (w_fs w) l = None \<and>
     w' = (tick w)\<lparr>w_fs := fs_put l (FileNode (m AND NOT (w_umask w)) []) (w_fs w)\<rparr>"
  by (auto simp: file_create_new_def os_call_Ok_iff fs_create_new_def
      split: sum.splits if_splits)

lemma create_dir_Ok_iff:
  "create_dir p w = (Ok u, w') \<longleftrightarrow>
     w_faults w (w_calls w) = None \<and>
     (\<exists>l. resolve (w_fs w) False (w_cwd w) p = Inr l \<and> fs_get (w_fs w) l = None \<and>
        w' = (tick w)\<lparr>w_fs := fs_put l (DirNode (0x1FF AND NOT (w_umask w))) (w_fs w)\<rparr>)"
  by (auto simp: create_dir_def os_call_Ok_iff fs_create_new_def
      split: sum.splits if_splits prod.splits)

lemma file_write_all_Ok_iff:
  "file_write_all l bs w = (Ok u, w') \<longleftrightarrow>
     w_faults w (w_calls w) = None \<and> w' = (tick w)\<lparr>w_fs := fs_append l bs (w_fs w)\<rparr>"
  by (auto simp: file_write_all_def split: option.splits)

lemma file_sync_all_Ok_iff:
  "file_sync_all l w = (Ok u, w') \<longleftrightarrow> w_faults w (w_calls w) = None \<and> w' = tick w"
  by (auto simp: file_sync_all_def os_query_Ok_iff)

lemma set_permissions_Ok_iff:
  "set_permissions p m w = (Ok u, w') \<longleftrightarrow>
     w_faults w (w_calls w) = None \<and>
     (\<exists>l n. lookup_node (w_fs w) True (w_cwd w) p = Inr (l, n) \<and>
        w' = (tick w)\<lparr>w_fs := fs_put l (set_node_mode m n) (w_fs w)\<rparr>)"
  by (auto simp: set_permissions_def os_call_Ok_iff fs_chmod_def
      split: sum.splits prod.splits)

lemma remove_file_Ok_iff:
  "remove_file p w = (Ok u, w') \<longleftrightarrow>
     w_faults w (w_calls w) = None \<and>
     (\<exists>l n. lookup_node (w_fs w) False (w_cwd w) p = Inr (l, n) \<and> \<not> is_dir_node n \<and>
        w' = (tick w)\<lparr>w_fs := fs_del l (w_fs w)\<rparr>)"
  by (auto simp: remove_file_def os_call_Ok_iff fs_unlink_def
      split: sum.splits prod.splits if_splits)

lemma read_dir_Ok_iff:
  "read_dir p w = (Ok ps, w') \<longleftrightarrow>
     w_faults w (w_calls w) = None \<and> w' = tick w \<and>
     (\<exists>l n. lookup_node (w_fs w) True (w_cwd w) p = Inr (l, n) \<and> is_dir_node n \<and>
        ps = map (\<lambda>x. path_join p [Normal x]) (fs_children (w_fs w) l))"
  by (auto simp: read_dir_def os_query_Ok_iff split: sum.splits prod.splits if_splits)

lemmas call_Ok_iffs = symlink_metadata_Ok_iff metadata_Ok_iff file_open_Ok_iff
  file_create_new_Ok_iff create_dir_Ok_iff file_write_all_Ok_iff file_sync_all_Ok_iff
  set_permissions_Ok_iff remove_file_Ok_iff read_dir_Ok_iff

section \<open>Everything but some locations\<close>

text \<open>
  The tree outside a set of locations only grows. A file that is created, written and perhaps
  removed again is left out by its location while that goes on.
\<close>

definition extends_except :: "loc set \<Rightarrow> world \<Rightarrow> world \<Rightarrow> bool" where
  "extends_except L w w' \<longleftrightarrow> same_process w w' \<and>
     (\<forall>l n. l \<notin> L \<longrightarrow> fs_get (w_fs w) l = Some n \<longrightarrow>
        (\<exists>n'. fs_get (w_fs w') l = Some n' \<and> same_node n n'))"

interpretation excepting: frame "extends_except L" for L
proof
  fix r s t
  assume rs: "extends_except L r s" and st: "extends_except L s t"
  have "\<exists>n''. fs_get (w_fs t) l = Some n'' \<and> same_node n n''"
    if "l \<notin> L" and "fs_get (w_fs r) l = Some n" for l n
    using that rs st unfolding extends_except_def by (meson same_node_trans)
  then show "extends_except L r t"
    using rs st by (auto simp: extends_except_def same_process_def)
qed (auto simp: extends_except_def same_process_def)

lemma extends_except_empty [simp]: "extends_except {} = extends"
  by (auto simp: fun_eq_iff extends_except_def extends_def fs_extends_def)

lemma extends_except_mono: "extends_except L w w' \<Longrightarrow> L \<subseteq> M \<Longrightarrow> extends_except M w w'"
  by (auto simp: extends_except_def)

lemma extends_is_except: "extends w w' \<Longrightarrow> extends_except L w w'"
  using extends_except_mono [of "{}"] by simp

lemma keeps_extends_except: "keeps extends m \<Longrightarrow> keeps (extends_except L) m"
  by (auto simp: keeps_def intro: extends_is_except)

text \<open>What happens at places that were free extends the tree.\<close>

lemma extends_except_fresh:
  "extends_except L w w' \<Longrightarrow> (\<And>l. l \<in> L \<Longrightarrow> fs_get (w_fs w) l = None) \<Longrightarrow> extends w w'"
  by (fastforce simp: extends_except_def extends_def fs_extends_def)

lemma keeps_file_write_all [simp]: "keeps (extends_except {l}) (file_write_all l bs)"
  by (rule keepsI) (auto simp: file_write_all_def extends_except_def same_process_def fs_append_def
      split: option.splits node.splits)

lemma remove_file_except:
  assumes "remove_file p w = (r, w')" and "resolve (w_fs w) False (w_cwd w) p = Inr l"
  shows "extends_except {l} w w'"
  using assms
  by (auto simp: remove_file_def os_call_def fs_unlink_def lookup_node_def extends_except_def
      same_process_def split: option.splits sum.splits if_splits)

lemma extends_trans_except:
  "extends_except L w v \<Longrightarrow> extends_except L v u \<Longrightarrow> extends_except L w u"
  by (rule excepting.frame_trans)

section \<open>The file at a path\<close>

text \<open>The contents of the regular file a path names, if it names one and not through a link.\<close>

definition file_at :: "world \<Rightarrow> path \<Rightarrow> bytes option" where
  "file_at w p =
     (case lookup_node (w_fs w) False (w_cwd w) p of
        Inr (l, FileNode m c) \<Rightarrow> Some c | _ \<Rightarrow> None)"

lemma file_at_iff:
  "file_at w p = Some c \<longleftrightarrow> (\<exists>l m. lookup_node (w_fs w) False (w_cwd w) p = Inr (l, FileNode m c))"
  by (auto simp: file_at_def split: sum.splits prod.splits node.splits)

lemma file_at_extends:
  assumes "extends w w'" and "file_at w p = Some c"
  shows "file_at w' p = Some c"
proof -
  from assms(2) obtain l m where
    "lookup_node (w_fs w) False (w_cwd w) p = Inr (l, FileNode m c)"
    by (auto simp: file_at_iff)
  from lookup_node_extends [OF _ this, of "w_fs w'"] assms(1) show ?thesis
    by (auto simp: file_at_iff extends_def same_process_def)
qed

lemma file_at_looks: "looks w w' \<Longrightarrow> file_at w' p = file_at w p"
  by (simp add: file_at_def looks_def same_process_def)

lemma no_faults_same: "same_process w w' \<Longrightarrow> no_faults w' = no_faults w"
  by (simp add: same_process_def no_faults_def)

lemma no_faults_extends: "extends w w' \<Longrightarrow> no_faults w' = no_faults w"
  by (simp add: extends_def no_faults_same)

lemma no_faults_looks: "looks w w' \<Longrightarrow> no_faults w' = no_faults w"
  by (simp add: looks_def no_faults_same)

section \<open>What is spared\<close>

text \<open>
  Some commands remove a file. Files with contents of which \<open>B\<close> does not hold are kept by
  all of them, with everything else in the tree.
\<close>

definition spares :: "(bytes \<Rightarrow> bool) \<Rightarrow> world \<Rightarrow> world \<Rightarrow> bool" where
  "spares B w w' \<longleftrightarrow> same_process w w' \<and> fs_spares B (w_fs w) (w_fs w')"

interpretation sparing: frame "spares B" for B
proof
  show "spares B w w" for w
    by (simp add: spares_def same_process_def fs_extends_spares)
  show "spares B u w" if "spares B u v" "spares B v w" for u v w
    using that fs_spares_trans [of B "w_fs u" "w_fs v" "w_fs w"]
    by (auto simp: spares_def same_process_def)
qed

lemma extends_spares: "extends w w' \<Longrightarrow> spares B w w'"
  by (simp add: extends_def spares_def fs_extends_spares)

lemma keeps_spares: "keeps extends m \<Longrightarrow> keeps (spares B) m"
  by (auto simp: keeps_def intro: extends_spares)

lemma file_at_spares:
  assumes "spares B w w'" and "file_at w p = Some c" and "\<not> B c"
  shows "file_at w' p = Some c"
  using assms lookup_node_spares [of B "w_fs w" "w_fs w'" False "w_cwd w" p]
  by (fastforce simp: file_at_iff spares_def same_process_def)

section \<open>A world for the witnesses\<close>

text \<open>An empty root directory, no terminal, no faults, and randomness that counts.\<close>

definition sample_world :: world where
  "sample_world = \<lparr>w_fs = [([], DirNode 0x1ED)], w_cwd = [], w_env = (\<lambda>_. None), w_umask = 0x12,
     w_random = (\<lambda>n. Some (\<lambda>i. word_of_nat (3 * n + i + 1))), w_random_calls = 0,
     w_faults = (\<lambda>_. None), w_calls = 0, w_stdin = [], w_stdin_tty = False,
     w_stdout_tty = False, w_stderr_tty = False, w_tty = None,
     w_tty_mode = [], w_stty = (\<lambda>_ m. ((True, m), m)), w_stdout = [], w_stderr = [], w_args = [],
     w_show_path = (\<lambda>_. []), w_show_io = (\<lambda>_. [])\<rparr>"

end
