(* ===== verification/Format.thy ===== *)
theory Format
  imports Str
begin

unbundle bit_operations_syntax

text \<open>
  \<open>src/src/format.rs\<close>: the hexadecimal text form of byte strings and the bounds-checked
  \<open>Reader\<close> over a byte slice, with the laws of a codec as the interface the textual and
  binary formats of the program share.
\<close>

section \<open>Codecs\<close>

text \<open>
  An encoder and a decoder with the values they are meant for. A codec gives back what was
  encoded; a canonical codec also accepts nothing but encodings, so a value has exactly one
  accepted form.
\<close>

locale codec =
  fixes enc :: "'a \<Rightarrow> bytes" and dec :: "bytes \<Rightarrow> 'a result" and valid :: "'a \<Rightarrow> bool"
  assumes dec_enc: "valid x \<Longrightarrow> dec (enc x) = Ok x"
begin

lemma enc_inject: "valid x \<Longrightarrow> valid y \<Longrightarrow> enc x = enc y \<longleftrightarrow> x = y"
  by (metis dec_enc sum.inject(2))

end

locale canonical_codec = codec +
  assumes dec_Ok: "dec b = Ok x \<Longrightarrow> valid x \<and> enc x = b"
begin

lemma dec_Ok_iff: "dec b = Ok x \<longleftrightarrow> valid x \<and> b = enc x"
  using dec_enc dec_Ok by blast

lemma dec_unique: "dec b = Ok x \<Longrightarrow> dec b' = Ok x \<Longrightarrow> b = b'"
  by (simp add: dec_Ok_iff)

end

section \<open>Hexadecimal text\<close>

definition hex_alphabet :: bytes where
  "hex_alphabet = ascii ''0123456789abcdef''"

primrec hex_encode :: "bytes \<Rightarrow> bytes" where
  "hex_encode [] = []"
| "hex_encode (b # bs) =
     hex_alphabet ! unat (drop_bit 4 b) # hex_alphabet ! unat (b AND 0x0F) # hex_encode bs"

definition hex_nibble :: "byte \<Rightarrow> byte result" where
  "hex_nibble b =
     (if in_range 0x30 0x39 b then Ok (b - 0x30)
      else if in_range 0x61 0x66 b then Ok (b - 0x61 + 10)
      else if in_range 0x41 0x46 b then Ok (b - 0x41 + 10)
      else Err (InvalidInput ''invalid hexadecimal character''))"

text \<open>The loop over the \<open>n\<close> output bytes still to write, the next one being \<open>index\<close>.\<close>

fun hex_decode_loop :: "bytes \<Rightarrow> nat \<Rightarrow> nat \<Rightarrow> bytes result" where
  "hex_decode_loop encoded index 0 = Ok []"
| "hex_decode_loop encoded index (Suc n) =
     and_then (hex_nibble (encoded ! (index * 2))) (\<lambda>high.
     and_then (hex_nibble (encoded ! (index * 2 + 1))) (\<lambda>low.
     and_then (hex_decode_loop encoded (Suc index) n) (\<lambda>rest.
     Ok ((push_bit 4 high OR low) # rest))))"

definition hex_decode :: "nat \<Rightarrow> bytes \<Rightarrow> bytes result" where
  "hex_decode n encoded =
     (if length encoded \<noteq> n * 2 then Err (InvalidInput ''invalid hexadecimal length'')
      else hex_decode_loop encoded 0 n)"

subsection \<open>Nibbles\<close>

lemma and_nibble: "b AND 0x0F = take_bit 4 (b::byte)"
  by (simp add: take_bit_eq_mask mask_eq_exp_minus_1)

lemma nibble_bounds: "unat (drop_bit 4 b) < 16" "unat ((b::byte) AND 0x0F) < 16"
proof -
  have "unat b < 256" using unsigned_less [of b] by simp
  moreover have "unat (drop_bit 4 b) = unat b div 16"
    by (simp add: drop_bit_eq_div unat_div_distrib)
  ultimately show "unat (drop_bit 4 b) < 16" by (simp add: less_mult_imp_div_less)
  show "unat (b AND 0x0F) < 16"
    by (simp add: and_nibble take_bit_eq_mod unat_mod_distrib)
qed

lemma hex_nibble_alphabet: "unat v < 16 \<Longrightarrow> hex_nibble (hex_alphabet ! unat v) = Ok v"
proof -
  assume "unat v < 16"
  then have "unat v \<in> set [0..<16]" by simp
  moreover have "\<forall>n\<in>set [0..<16]. hex_nibble (hex_alphabet ! n) = Ok (word_of_nat n)"
    by code_simp
  ultimately show ?thesis by fastforce
qed

lemma hex_nibble_high: "hex_nibble (hex_alphabet ! unat (drop_bit 4 b)) = Ok (drop_bit 4 b)"
  by (rule hex_nibble_alphabet) (rule nibble_bounds)

lemma hex_nibble_low: "hex_nibble (hex_alphabet ! unat (b AND 0x0F)) = Ok (b AND 0x0F)"
  by (rule hex_nibble_alphabet) (rule nibble_bounds)

lemma nibbles_join: "push_bit 4 (drop_bit 4 b) OR (b AND 0x0F) = (b::byte)"
  by (rule bit_word_eqI) (auto simp: bit_simps and_nibble)

lemma hex_nibble_Ok_aux:
  "case hex_nibble b of Inl e \<Rightarrow> e = InvalidInput ''invalid hexadecimal character''
   | Inr v \<Rightarrow> v < 16 \<and> hex_alphabet ! unat v = ascii_lower b"
  by (rule all_bytesI) code_simp

lemma hex_nibble_Ok: "hex_nibble b = Ok v \<Longrightarrow> v < 16 \<and> hex_alphabet ! unat v = ascii_lower b"
  using hex_nibble_Ok_aux [of b] by simp

lemma nibbles_split_aux:
  "\<forall>i\<in>set [0..<16]. \<forall>j\<in>set [0..<16].
     drop_bit 4 (push_bit 4 (word_of_nat i :: byte) OR word_of_nat j) = word_of_nat i
     \<and> (push_bit 4 (word_of_nat i :: byte) OR word_of_nat j) AND 0x0F = word_of_nat j"
  by code_simp

lemma nibbles_split:
  assumes "h < 16" and "l < (16::byte)"
  shows "drop_bit 4 (push_bit 4 h OR l) = h" and "(push_bit 4 h OR l) AND 0x0F = l"
proof -
  have "unat h \<in> set [0..<16]" "unat l \<in> set [0..<16]"
    using assms by (auto simp: word_less_nat_alt)
  from bspec [OF bspec [OF nibbles_split_aux this(1)] this(2)]
  show "drop_bit 4 (push_bit 4 h OR l) = h" "(push_bit 4 h OR l) AND 0x0F = l"
    by simp_all
qed

lemma hex_alphabet_ascii: "n < 16 \<Longrightarrow> hex_alphabet ! n < 0x80 \<and> hex_alphabet ! n \<noteq> newline
    \<and> hex_alphabet ! n \<noteq> carriage_return"
proof -
  assume "n < 16"
  moreover have "\<forall>n\<in>set [0..<16]. hex_alphabet ! n < 0x80 \<and> hex_alphabet ! n \<noteq> newline
      \<and> hex_alphabet ! n \<noteq> carriage_return"
    by code_simp
  ultimately show ?thesis by simp
qed

subsection \<open>Encoding and decoding\<close>

lemma length_hex_encode [simp]: "length (hex_encode bs) = 2 * length bs"
  by (induction bs) auto

lemma hex_encode_append: "hex_encode (xs @ ys) = hex_encode xs @ hex_encode ys"
  by (induction xs) auto

lemma hex_encode_ascii: "b \<in> set (hex_encode bs) \<Longrightarrow> b < 0x80 \<and> b \<noteq> newline \<and> b \<noteq> carriage_return"
  using hex_alphabet_ascii [OF nibble_bounds(1)] hex_alphabet_ascii [OF nibble_bounds(2)]
  by (induction bs) auto

lemma hex_encode_joined:
  "h < 16 \<Longrightarrow> l < 16 \<Longrightarrow> hex_encode ((push_bit 4 h OR l) # bs) =
     hex_alphabet ! unat h # hex_alphabet ! unat l # hex_encode bs"
  by (simp only: hex_encode.simps nibbles_split)

lemma hex_decode_loop_shift:
  "hex_decode_loop (a # b # s) (Suc i) n = hex_decode_loop s i n"
  by (induction n arbitrary: i) auto

lemma hex_decode_loop_encode: "hex_decode_loop (hex_encode bs) 0 (length bs) = Ok bs"
  by (induction bs)
    (simp_all add: hex_nibble_high hex_nibble_low hex_decode_loop_shift nibbles_join)

lemma hex_decode_encode: "length bs = n \<Longrightarrow> hex_decode n (hex_encode bs) = Ok bs"
  using hex_decode_loop_encode [of bs] by (auto simp: hex_decode_def)

lemma hex_decode_loop_Ok:
  "length s = n * 2 \<Longrightarrow> hex_decode_loop s 0 n = Ok bs \<Longrightarrow>
     length bs = n \<and> hex_encode bs = to_ascii_lowercase s"
proof (induction n arbitrary: s bs)
  case 0
  then show ?case by (simp add: to_ascii_lowercase_def)
next
  case (Suc n)
  then obtain a b t where s: "s = a # b # t" "length t = n * 2"
    by (cases s; cases "tl s") auto
  with Suc.prems(2) obtain h l rest where hl: "hex_nibble a = Ok h" "hex_nibble b = Ok l"
    and rest: "hex_decode_loop t 0 n = Ok rest" and bs: "bs = (push_bit 4 h OR l) # rest"
    by (auto simp: hex_decode_loop_shift and_then_Inr_iff)
  from Suc.IH [OF s(2) rest] show ?case
    using hl [THEN hex_nibble_Ok]
    by (simp add: bs s(1) hex_encode_joined to_ascii_lowercase_def del: hex_encode.simps)
qed

lemma hex_decode_Ok:
  "hex_decode n s = Ok bs \<Longrightarrow>
     length s = 2 * n \<and> length bs = n \<and> hex_encode bs = to_ascii_lowercase s"
  using hex_decode_loop_Ok [of s n bs] by (auto simp: hex_decode_def split: if_splits)

interpretation hex: codec hex_encode "hex_decode n" "\<lambda>bs. length bs = n"
  by unfold_locales (rule hex_decode_encode)

section \<open>The reader\<close>

record reader =
  rd_input :: bytes
  rd_offset :: nat

definition reader_new :: "bytes \<Rightarrow> reader" where
  "reader_new input = \<lparr>rd_input = input, rd_offset = 0\<rparr>"

text \<open>
  The four accessors change the reader through \<open>&mut self\<close>: computations over it. \<open>take\<close>
  fails on an overflowing or out-of-bounds end and leaves the reader where it was.
\<close>

definition reader_take :: "nat \<Rightarrow> (reader, bytes) st" where
  "reader_take n r =
     (case checked_add (rd_offset r) n of
        None \<Rightarrow> (Err (InvalidInput ''malformed binary input''), r)
      | Some end_offset \<Rightarrow>
          if end_offset > length (rd_input r) then
            (Err (InvalidInput ''truncated binary input''), r)
          else (Ok (take (end_offset - rd_offset r) (drop (rd_offset r) (rd_input r))),
                r\<lparr>rd_offset := end_offset\<rparr>))"

definition reader_array :: "nat \<Rightarrow> (reader, bytes) st" where
  "reader_array n = bind_st (reader_take n) (\<lambda>slice.
     if length slice = n then ret slice
     else throw (InvalidInput ''malformed binary input''))"

definition reader_byte :: "(reader, byte) st" where
  "reader_byte = bind_st (reader_take 1) (\<lambda>slice. ret (slice ! 0))"

definition u32_from_be_bytes :: "bytes \<Rightarrow> 32 word" where
  "u32_from_be_bytes bs =
     push_bit 24 (ucast (bs ! 0)) OR push_bit 16 (ucast (bs ! 1))
     OR push_bit 8 (ucast (bs ! 2)) OR ucast (bs ! 3)"

definition u32_to_be_bytes :: "32 word \<Rightarrow> bytes" where
  "u32_to_be_bytes w =
     [ucast (drop_bit 24 w), ucast (drop_bit 16 w), ucast (drop_bit 8 w), ucast w]"

definition reader_u32_be :: "(reader, 32 word) st" where
  "reader_u32_be = bind_st (reader_array 4) (\<lambda>bs. ret (u32_from_be_bytes bs))"

definition reader_remaining :: "reader \<Rightarrow> nat" where
  "reader_remaining r = length (rd_input r) - rd_offset r"

subsection \<open>The reader stays inside its input\<close>

definition reader_ok :: "reader \<Rightarrow> bool" where
  "reader_ok r \<longleftrightarrow> rd_offset r \<le> length (rd_input r) \<and> length (rd_input r) \<le> usize_max"

text \<open>What is left to read, and the bytes a sequence of reads has consumed.\<close>

definition unread :: "reader \<Rightarrow> bytes" where
  "unread r = drop (rd_offset r) (rd_input r)"

definition advance :: "nat \<Rightarrow> reader \<Rightarrow> reader" where
  "advance n r = r\<lparr>rd_offset := rd_offset r + n\<rparr>"

lemma reader_new_ok: "length input \<le> usize_max \<Longrightarrow> reader_ok (reader_new input)"
  by (simp add: reader_ok_def reader_new_def)

lemma unread_new [simp]: "unread (reader_new input) = input"
  by (simp add: unread_def reader_new_def)

lemma unread_advance [simp]: "unread (advance n r) = drop n (unread r)"
  by (simp add: unread_def advance_def add.commute)

lemma advance_ok: "reader_ok r \<Longrightarrow> n \<le> length (unread r) \<Longrightarrow> reader_ok (advance n r)"
  by (auto simp: reader_ok_def unread_def advance_def)

lemma reader_remaining_unread: "reader_ok r \<Longrightarrow> reader_remaining r = length (unread r)"
  by (simp add: reader_remaining_def unread_def)

text \<open>Every read is decided by the length of what is left: the value and the new position.\<close>

lemma reader_take_eq:
  assumes "reader_ok r"
  shows "reader_take n r =
    (if n \<le> length (unread r) then (Ok (take n (unread r)), advance n r)
     else if rd_offset r + n \<le> usize_max then (Err (InvalidInput ''truncated binary input''), r)
     else (Err (InvalidInput ''malformed binary input''), r))"
  using assms by (auto simp: reader_take_def reader_ok_def unread_def advance_def checked_add_def)

lemma reader_take_Ok:
  "reader_ok r \<Longrightarrow> n \<le> length (unread r) \<Longrightarrow>
   reader_take n r = (Ok (take n (unread r)), advance n r)"
  by (simp add: reader_take_eq)

lemma reader_array_Ok:
  "reader_ok r \<Longrightarrow> n \<le> length (unread r) \<Longrightarrow>
   reader_array n r = (Ok (take n (unread r)), advance n r)"
  by (simp add: reader_array_def reader_take_Ok bind_st_def)

lemma reader_byte_Ok:
  "reader_ok r \<Longrightarrow> 1 \<le> length (unread r) \<Longrightarrow> reader_byte r = (Ok (unread r ! 0), advance 1 r)"
  by (simp add: reader_byte_def reader_take_Ok bind_st_def)

lemma reader_u32_be_Ok:
  "reader_ok r \<Longrightarrow> 4 \<le> length (unread r) \<Longrightarrow>
   reader_u32_be r = (Ok (u32_from_be_bytes (take 4 (unread r))), advance 4 r)"
  by (simp add: reader_u32_be_def reader_array_Ok bind_st_def)

lemmas reader_Ok = reader_take_Ok reader_array_Ok reader_byte_Ok reader_u32_be_Ok

lemma reader_byte_fails:
  "reader_ok r \<Longrightarrow> unread r = [] \<Longrightarrow> \<exists>e. reader_byte r = (Err e, r)"
  by (auto simp: reader_byte_def bind_st_def reader_take_eq)

lemma reader_array_fails:
  "reader_ok r \<Longrightarrow> length (unread r) < n \<Longrightarrow> \<exists>e. reader_array n r = (Err e, r)"
  by (auto simp: reader_array_def bind_st_def reader_take_eq)

text \<open>
  The relation every read keeps: the input stays, the position only moves forward and never
  past the end. The reader's operations are instances of the frame interface.
\<close>

definition reads_on :: "reader \<Rightarrow> reader \<Rightarrow> bool" where
  "reads_on r r' \<longleftrightarrow> rd_input r' = rd_input r \<and> rd_offset r \<le> rd_offset r'
     \<and> (reader_ok r \<longrightarrow> reader_ok r')"

interpretation reading: frame reads_on
  by unfold_locales (auto simp: reads_on_def)

lemma keeps_reader_take [intro, simp]: "keeps reads_on (reader_take n)"
  by (rule keepsI)
    (auto simp: reader_take_def reads_on_def reader_ok_def split: option.splits if_splits)

lemma keeps_reader_array [intro, simp]: "keeps reads_on (reader_array n)"
  unfolding reader_array_def by (intro reading.keeps_rules keeps_reader_take) auto

lemma keeps_reader_byte [intro, simp]: "keeps reads_on reader_byte"
  unfolding reader_byte_def by (intro reading.keeps_rules keeps_reader_take) auto

lemma keeps_reader_u32_be [intro, simp]: "keeps reads_on reader_u32_be"
  unfolding reader_u32_be_def by (intro reading.keeps_rules keeps_reader_array) auto

subsection \<open>Big-endian 32-bit integers\<close>

lemma length_u32_to_be_bytes [simp]: "length (u32_to_be_bytes w) = 4"
  by (simp add: u32_to_be_bytes_def)

lemma u32_from_to_be_bytes [simp]: "u32_from_be_bytes (u32_to_be_bytes w) = w"
proof (rule bit_word_eqI)
  fix n assume "n < LENGTH(32)"
  then consider "n < 8" | "8 \<le> n" "n < 16" | "16 \<le> n" "n < 24" | "24 \<le> n" "n < 32"
    by force
  then show "bit (u32_from_be_bytes (u32_to_be_bytes w)) n \<longleftrightarrow> bit w n"
    by cases (auto simp: u32_from_be_bytes_def u32_to_be_bytes_def bit_simps)
qed

lemma bit_byte_beyond: "8 \<le> n \<Longrightarrow> \<not> bit (b::byte) n"
  using bit_imp_le_length [of b n] by auto

lemma u32_to_from_be_bytes:
  assumes "length bs = 4"
  shows "u32_to_be_bytes (u32_from_be_bytes bs) = bs"
proof -
  from assms obtain a b c d where bs: "bs = [a, b, c, d]"
    by (auto simp: length_Suc_conv numeral_eq_Suc)
  show ?thesis
    by (auto simp: bs u32_from_be_bytes_def u32_to_be_bytes_def intro!: bit_word_eqI
        simp: bit_simps bit_byte_beyond)
qed

interpretation u32: codec u32_to_be_bytes "\<lambda>bs. Ok (u32_from_be_bytes bs)" "\<lambda>_. True"
  by unfold_locales simp

section \<open>Properties of the formats\<close>

lemma hex_nibble_lower: "hex_nibble (ascii_lower b) = hex_nibble b"
proof (cases "is_ascii_uppercase b")
  case True
  then have "unat b \<in> set [65..<91]"
    unfolding set_upt atLeastLessThan_iff by (simp add: byte_class_defs word_le_nat_alt)
  moreover have "\<forall>n\<in>set [65..<91]. hex_nibble (ascii_lower (word_of_nat n)) = hex_nibble (word_of_nat n)"
    by (simp add: hex_nibble_def in_range_def ascii_lower_def byte_class_defs upt_rec)
  ultimately show ?thesis by fastforce
qed (simp add: ascii_lower_def)

lemma hex_decode_loop_lower:
  "2 * (i + n) \<le> length s \<Longrightarrow> hex_decode_loop (to_ascii_lowercase s) i n = hex_decode_loop s i n"
  by (induction n arbitrary: i) (simp_all add: to_ascii_lowercase_def hex_nibble_lower)

lemma hex_decode_lower: "hex_decode n (to_ascii_lowercase s) = hex_decode n s"
  by (simp add: hex_decode_def hex_decode_loop_lower to_ascii_lowercase_def)
    (metis hex_decode_loop_lower to_ascii_lowercase_def add_0 le_refl mult.commute)

text \<open>C34: A text decodes to \<open>n\<close> bytes exactly when, in lower case, it is the encoding of those
  bytes; so decoding undoes encoding, and nothing else is accepted.\<close>

theorem hex_decode_exact:
  "hex_decode n s = Ok bs \<longleftrightarrow> length bs = n \<and> to_ascii_lowercase s = hex_encode bs"
  using hex_decode_Ok [of n s bs] hex_decode_encode [of bs n] hex_decode_lower [of n s] by auto

text \<open>C33: A reader that is inside its input gives exactly the next \<open>n\<close> bytes and moves past
  them, staying inside, or fails and stays where it was; it never reads out of bounds.\<close>

theorem reader_array_bounds:
  assumes "reader_ok r"
  shows "(n \<le> reader_remaining r \<and>
      reader_array n r = (Ok (take n (drop (rd_offset r) (rd_input r))), advance n r) \<and>
      length (take n (drop (rd_offset r) (rd_input r))) = n \<and> reader_ok (advance n r)) \<or>
    (reader_remaining r < n \<and> (\<exists>e. reader_array n r = (Err e, r)))"
proof (cases "n \<le> length (unread r)")
  case True
  with assms show ?thesis
    by (simp add: reader_array_Ok advance_ok reader_remaining_unread) (simp add: unread_def)
next
  case False
  with assms reader_array_fails [of r n] show ?thesis by (simp add: reader_remaining_unread)
qed

text \<open>Witness of C33: three bytes, of which two are read and four are not.\<close>

theorem reader_array_bounds_witness:
  "reader_array 2 (reader_new [1, 2, 3]) = (Ok [1, 2], advance 2 (reader_new [1, 2, 3])) \<and>
   (\<exists>e. reader_array 4 (reader_new [1, 2, 3]) = (Err e, reader_new [1, 2, 3]))"
  using reader_array_bounds [of "reader_new [1, 2, 3]" 2] reader_array_bounds [of "reader_new [1, 2, 3]" 4]
  by (simp add: reader_ok_def reader_new_def reader_remaining_def usize_max_def)

end
