(* ===== verification/Protocol.thy ===== *)
theory Protocol
  imports Format "HOL-Library.While_Combinator"
begin

text \<open>
  \<open>src/src/protocol.rs\<close>: the protocol's constants, the padding buckets a blob is rounded
  up to, and the check of a received blob's length.
\<close>

section \<open>Constants\<close>

named_theorems protocol_consts

definition PROTOCOL_VERSION :: byte where [protocol_consts]: "PROTOCOL_VERSION = 1"
definition CRYPTO_SUITE_CLASSICAL_V1 :: byte where
  [protocol_consts]: "CRYPTO_SUITE_CLASSICAL_V1 = 1"
definition PROFILE_VERSION :: byte where [protocol_consts]: "PROFILE_VERSION = 1"

definition ED25519_PUBLIC_LEN :: nat where [protocol_consts]: "ED25519_PUBLIC_LEN = 32"
definition ED25519_SECRET_LEN :: nat where [protocol_consts]: "ED25519_SECRET_LEN = 32"
definition X25519_PUBLIC_LEN :: nat where [protocol_consts]: "X25519_PUBLIC_LEN = 32"
definition X25519_SECRET_LEN :: nat where [protocol_consts]: "X25519_SECRET_LEN = 32"
definition FINGERPRINT_LEN :: nat where [protocol_consts]: "FINGERPRINT_LEN = 32"
definition MESSAGE_ID_LEN :: nat where [protocol_consts]: "MESSAGE_ID_LEN = 32"
definition SIGNATURE_LEN :: nat where [protocol_consts]: "SIGNATURE_LEN = 64"
definition MESSAGE_KEY_LEN :: nat where [protocol_consts]: "MESSAGE_KEY_LEN = 32"
definition NONCE_LEN :: nat where [protocol_consts]: "NONCE_LEN = 24"
definition EPHEMERAL_PUBLIC_LEN :: nat where [protocol_consts]: "EPHEMERAL_PUBLIC_LEN = 32"
definition AEAD_TAG_LEN :: nat where [protocol_consts]: "AEAD_TAG_LEN = 16"

definition OUTER_OVERHEAD :: nat where
  [protocol_consts]: "OUTER_OVERHEAD = EPHEMERAL_PUBLIC_LEN + NONCE_LEN + AEAD_TAG_LEN"

definition INTERNAL_FIXED_LEN :: nat where
  [protocol_consts]: "INTERNAL_FIXED_LEN = 1 + 1 + ED25519_PUBLIC_LEN + X25519_PUBLIC_LEN
     + FINGERPRINT_LEN + MESSAGE_ID_LEN + 4 + SIGNATURE_LEN"

definition MIN_BLOB_LEN :: nat where [protocol_consts]: "MIN_BLOB_LEN = 512"
definition MAX_BODY_LEN :: nat where [protocol_consts]: "MAX_BODY_LEN = 1024 * 1024"
definition MAX_BLOB_LEN :: nat where [protocol_consts]: "MAX_BLOB_LEN = 2 * 1024 * 1024"

definition PROFILE_PREFIX :: bytes where "PROFILE_PREFIX = ascii ''sealed-profile-v1''"
definition UNLOCK_PREFIX :: bytes where "UNLOCK_PREFIX = ascii ''sealed-unlock-v1''"

definition FINGERPRINT_DOMAIN :: bytes where
  "FINGERPRINT_DOMAIN = ascii ''sealed/fingerprint/v1''"
definition CONTACT_ROOT_SALT :: bytes where
  "CONTACT_ROOT_SALT = ascii ''sealed/contact-root/extract/v1''"
definition CONTACT_ROOT_INFO :: bytes where
  "CONTACT_ROOT_INFO = ascii ''sealed/contact-root/expand/v1''"
definition SUBKEY_SALT :: bytes where
  "SUBKEY_SALT = ascii ''sealed/contact-subkey/extract/v1''"
definition STEGO_INFO :: bytes where
  "STEGO_INFO = ascii ''sealed/steganography/v1''"
definition MESSAGE_KEY_SALT :: bytes where
  "MESSAGE_KEY_SALT = ascii ''sealed/message-key/extract/v1''"
definition MESSAGE_KEY_INFO :: bytes where
  "MESSAGE_KEY_INFO = ascii ''sealed/message-key/expand/v1''"
definition SIGNATURE_DOMAIN :: bytes where
  "SIGNATURE_DOMAIN = ascii ''sealed/message-signature/v1''"
definition OUTER_AAD_DOMAIN :: bytes where
  "OUTER_AAD_DOMAIN = ascii ''sealed/outer-aead/v1''"
definition IDENTITY_AAD_DOMAIN :: bytes where
  "IDENTITY_AAD_DOMAIN = ascii ''sealed/identity-at-rest/v1''"

lemmas domain_defs = FINGERPRINT_DOMAIN_def CONTACT_ROOT_SALT_def CONTACT_ROOT_INFO_def
  SUBKEY_SALT_def STEGO_INFO_def MESSAGE_KEY_SALT_def MESSAGE_KEY_INFO_def
  SIGNATURE_DOMAIN_def OUTER_AAD_DOMAIN_def IDENTITY_AAD_DOMAIN_def

section \<open>Padding buckets\<close>

text \<open>
  The loop \<open>while bucket < required { bucket = bucket.checked_mul(2)?; }\<close>. The outer option
  is whether the loop ends at all, the inner one the early return of \<open>?\<close>.
\<close>

partial_function (option) grow_bucket :: "nat \<Rightarrow> nat \<Rightarrow> nat option option" where
  "grow_bucket required bucket =
     (if bucket < required then
        (case checked_mul bucket 2 of
           None \<Rightarrow> Some None
         | Some bucket' \<Rightarrow> grow_bucket required bucket')
      else Some (Some bucket))"

definition padded_blob_len :: "nat \<Rightarrow> nat option" where
  "padded_blob_len body_len =
     (if body_len > MAX_BODY_LEN then None
      else Option.bind (checked_add INTERNAL_FIXED_LEN body_len) (\<lambda>fixed.
           Option.bind (checked_add fixed OUTER_OVERHEAD) (\<lambda>required.
           Option.bind (grow_bucket required MIN_BLOB_LEN) (\<lambda>returned.
           Option.bind returned (\<lambda>bucket.
           if bucket \<le> MAX_BLOB_LEN then Some bucket else None)))))"

text \<open>\<open>usize::is_power_of_two\<close>: exactly one bit is set.\<close>

fun count_ones :: "nat \<Rightarrow> nat" where
  "count_ones n = (if n = 0 then 0 else n mod 2 + count_ones (n div 2))"

declare count_ones.simps [simp del]

definition is_power_of_two :: "nat \<Rightarrow> bool" where
  "is_power_of_two n \<longleftrightarrow> count_ones n = 1"

definition valid_blob_len :: "nat \<Rightarrow> bool" where
  "valid_blob_len n \<longleftrightarrow> MIN_BLOB_LEN \<le> n \<and> n \<le> MAX_BLOB_LEN \<and> is_power_of_two n"

subsection \<open>The bit count decides powers of two\<close>

lemma count_ones_0 [simp]: "count_ones 0 = 0"
  by (simp add: count_ones.simps)

lemma count_ones_double: "count_ones (2 * n) = count_ones n"
  by (cases "n = 0") (simp_all add: count_ones.simps [of "2 * n"])

lemma count_ones_pos: "0 < n \<Longrightarrow> 0 < count_ones n"
proof (induction n rule: count_ones.induct)
  case (1 n)
  then show ?case
    by (cases "n div 2 = 0"; cases "even n")
      (auto simp: count_ones.simps [of n] elim: oddE)
qed

lemma count_ones_Suc_0 [simp]: "count_ones (Suc 0) = 1"
  by (simp add: count_ones.simps [of "Suc 0"])

lemma is_power_of_two_iff: "is_power_of_two n \<longleftrightarrow> (\<exists>k. n = 2 ^ k)"
proof
  assume "\<exists>k. n = 2 ^ k"
  then obtain k where "n = 2 ^ k" ..
  moreover have "count_ones (2 ^ k) = 1"
    by (induction k) (simp_all add: count_ones_double)
  ultimately show "is_power_of_two n" by (simp add: is_power_of_two_def)
next
  have "count_ones n = 1 \<Longrightarrow> \<exists>k. n = 2 ^ k"
  proof (induction n rule: count_ones.induct)
    case (1 n)
    have "n \<noteq> 0" using 1(2) by (intro notI) simp
    with 1(2) have c: "n mod 2 + count_ones (n div 2) = 1" by (simp add: count_ones.simps [of n])
    show ?case
    proof (cases "even n")
      case True
      with c \<open>n \<noteq> 0\<close> 1(1) obtain k where "n div 2 = 2 ^ k" by auto
      with True have "n = 2 ^ Suc k" by auto
      then show ?thesis ..
    next
      case False
      with c have "count_ones (n div 2) = 0" by (simp add: odd_iff_mod_2_eq_one)
      then have "n div 2 = 0" using count_ones_pos [of "n div 2"] by (cases "n div 2") auto
      with False have "n = 2 ^ 0" by (auto elim: oddE)
      then show ?thesis ..
    qed
  qed
  then show "is_power_of_two n \<Longrightarrow> \<exists>k. n = 2 ^ k" by (simp add: is_power_of_two_def)
qed

lemma valid_blob_len_iff: "valid_blob_len n \<longleftrightarrow> (\<exists>k\<le>12. n = 512 * 2 ^ k)"
proof
  assume v: "valid_blob_len n"
  then obtain j where j: "n = 2 ^ j" and b: "512 \<le> n" "n \<le> 2097152"
    by (auto simp: valid_blob_len_def is_power_of_two_iff MIN_BLOB_LEN_def MAX_BLOB_LEN_def)
  have "(2::nat) ^ 9 \<le> 2 ^ j" and "(2::nat) ^ j \<le> 2 ^ 21" using b by (simp_all add: j)
  then have "9 \<le> j" and "j \<le> 21" by (simp_all only: power_increasing_iff one_less_numeral_iff semiring_norm)
  then obtain i where "j = 9 + i" and "i \<le> 12" by (auto dest!: le_Suc_ex)
  then show "\<exists>k\<le>12. n = 512 * 2 ^ k" by (auto simp: j power_add)
next
  assume "\<exists>k\<le>12. n = 512 * 2 ^ k"
  then obtain k where k: "k \<le> 12" "n = 2 ^ (9 + k)" by (auto simp: power_add)
  have "(2::nat) ^ 9 \<le> 2 ^ (9 + k)" by (rule power_increasing) simp_all
  moreover have "(2::nat) ^ (9 + k) \<le> 2 ^ 21" using k(1) by (intro power_increasing) simp_all
  ultimately show "valid_blob_len n"
    by (auto simp: valid_blob_len_def is_power_of_two_iff MIN_BLOB_LEN_def MAX_BLOB_LEN_def k(2))
qed

subsection \<open>The bucket loop\<close>

text \<open>
  From a positive bucket the loop always ends; it overflows only past half of \<open>usize\<close>, and
  otherwise ends at the first doubling that is large enough.
\<close>

lemma grow_bucket_spec:
  assumes "0 < bucket" and "2 * required \<le> usize_max"
  shows "\<exists>k. grow_bucket required bucket = Some (Some (bucket * 2 ^ k))
     \<and> required \<le> bucket * 2 ^ k \<and> (\<forall>j<k. bucket * 2 ^ j < required)"
  using assms
proof (induction "required - bucket" arbitrary: bucket rule: less_induct)
  case less
  show ?case
  proof (cases "bucket < required")
    case False
    then show ?thesis by (intro exI [of _ 0]) (simp add: grow_bucket.simps)
  next
    case True
    with less.prems have m: "bucket * 2 \<le> usize_max" by simp
    have "required - bucket * 2 < required - bucket" "0 < bucket * 2"
      using True less.prems by auto
    from less.hyps [OF this less.prems(2)] obtain k where
      k: "grow_bucket required (bucket * 2) = Some (Some (bucket * 2 * 2 ^ k))"
        "required \<le> bucket * 2 * 2 ^ k" "\<forall>j<k. bucket * 2 * 2 ^ j < required"
      by blast
    have "bucket * 2 ^ j < required" if "j < Suc k" for j
      using that True k(3) by (cases j) (auto simp: mult.assoc)
    with k True m show ?thesis
      by (intro exI [of _ "Suc k"]) (simp add: grow_bucket.simps [of required bucket] checked_mul_def mult.assoc)
  qed
qed

lemma grow_bucket_returns: "0 < bucket \<Longrightarrow> \<exists>r. grow_bucket required bucket = Some r"
proof (induction "required - bucket" arbitrary: bucket rule: less_induct)
  case less
  show ?case
  proof (cases "bucket < required")
    case True
    with less.prems have "required - bucket * 2 < required - bucket" "0 < bucket * 2" by auto
    from less.hyps [OF this] True show ?thesis
      by (auto simp: grow_bucket.simps [of required bucket] split: option.splits)
  qed (simp add: grow_bucket.simps)
qed

text \<open>The space a letter needs, and the bucket it gets.\<close>

definition required_len :: "nat \<Rightarrow> nat" where
  "required_len body_len = INTERNAL_FIXED_LEN + body_len + OUTER_OVERHEAD"

lemma padded_blob_len_ex:
  assumes "n \<le> MAX_BODY_LEN"
  shows "\<exists>k\<le>12. padded_blob_len n = Some (512 * 2 ^ k) \<and> required_len n \<le> 512 * 2 ^ k
    \<and> (\<forall>j<k. 512 * 2 ^ j < required_len n)"
proof -
  have le: "2 * required_len n \<le> usize_max" and r: "required_len n \<le> 512 * 2 ^ 12"
    using assms by (simp_all add: required_len_def usize_max_def protocol_consts)
  from grow_bucket_spec [of 512, OF _ le] obtain k where
    k: "grow_bucket (required_len n) 512 = Some (Some (512 * 2 ^ k))"
      "required_len n \<le> 512 * 2 ^ k" "\<forall>j<k. 512 * 2 ^ j < required_len n"
    by auto
  have "k \<le> 12" using k(3) r by (meson leD not_le_imp_less)
  then have "(512::nat) * 2 ^ k \<le> 512 * 2 ^ 12"
    by (intro mult_le_mono power_increasing) simp_all
  with k(1) le assms have "padded_blob_len n = Some (512 * 2 ^ k)"
    by (simp add: padded_blob_len_def required_len_def protocol_consts checked_add_def
        usize_max_def)
  with k \<open>k \<le> 12\<close> show ?thesis by blast
qed

lemma padded_blob_len_None: "MAX_BODY_LEN < n \<Longrightarrow> padded_blob_len n = None"
  by (simp add: padded_blob_len_def)

lemma padded_blob_len_least:
  "padded_blob_len n = Some b \<longleftrightarrow>
     n \<le> MAX_BODY_LEN \<and> valid_blob_len b \<and> required_len n \<le> b \<and>
     (\<forall>m. valid_blob_len m \<and> required_len n \<le> m \<longrightarrow> b \<le> m)"
proof (cases "n \<le> MAX_BODY_LEN")
  case True
  from padded_blob_len_ex [OF this] obtain k where
    k: "k \<le> 12" "padded_blob_len n = Some (512 * 2 ^ k)" "required_len n \<le> 512 * 2 ^ k"
      "\<forall>j<k. 512 * 2 ^ j < required_len n"
    by blast
  have v: "valid_blob_len (512 * 2 ^ k)" using k(1) by (auto simp: valid_blob_len_iff)
  have least: "512 * 2 ^ k \<le> m" if "valid_blob_len m" "required_len n \<le> m" for m
  proof -
    from that(1) obtain j where j: "m = 512 * 2 ^ j" by (auto simp: valid_blob_len_iff)
    with that(2) k(4) have "\<not> j < k" by (auto dest: leD)
    then show ?thesis by (simp add: j)
  qed
  show ?thesis using True k(2,3) v least by (auto intro: order_antisym)
qed (simp add: padded_blob_len_None)

section \<open>Properties of the buckets\<close>

text \<open>The valid blob lengths are the thirteen doublings of 512 bytes up to 2 MiB.\<close>

theorem valid_blob_len_buckets: "{n. valid_blob_len n} = (\<lambda>k. 512 * 2 ^ k) ` {0..12}"
  by (auto simp: valid_blob_len_iff)

text \<open>C27: Every body of at most 1 MiB gets the smallest valid length that holds it, and no
  longer body gets one.\<close>

theorem padded_blob_len_bucket:
  "padded_blob_len n =
     (if n \<le> MAX_BODY_LEN then Some (LEAST b. valid_blob_len b \<and> required_len n \<le> b) else None)"
proof (cases "n \<le> MAX_BODY_LEN")
  case True
  then obtain b where b: "padded_blob_len n = Some b" using padded_blob_len_ex by blast
  then have "(LEAST b. valid_blob_len b \<and> required_len n \<le> b) = b"
    unfolding padded_blob_len_least by (intro Least_equality) auto
  with b True show ?thesis by simp
qed (simp add: padded_blob_len_None)

lemma grow_bucket_zero:
  assumes "grow_bucket required bucket = Some r"
  shows "bucket \<noteq> 0 \<or> required = 0"
proof (rule grow_bucket.raw_induct [OF _ assms])
  fix rec :: "nat \<Rightarrow> nat \<Rightarrow> nat option option" and required bucket r
  assume ih: "\<And>a b y. rec a b = Some y \<Longrightarrow> b \<noteq> 0 \<or> a = 0"
    and run: "(if bucket < required then
        (case checked_mul bucket 2 of None \<Rightarrow> Some None | Some bucket' \<Rightarrow> rec required bucket')
      else Some (Some bucket)) = Some r"
  show "bucket \<noteq> 0 \<or> required = 0"
    using run ih [of required 0]
    by (cases "bucket = 0") (auto simp: checked_mul_def split: if_splits)
qed

text \<open>C35: The doubling loop ends for every requirement from every bucket but an empty one; from
  an empty bucket it ends only when nothing is required.\<close>

theorem grow_bucket_ends:
  "grow_bucket required bucket = None \<longleftrightarrow> bucket = 0 \<and> 0 < required"
proof
  show "grow_bucket required bucket = None \<Longrightarrow> bucket = 0 \<and> 0 < required"
    using grow_bucket_returns [of bucket required]
    by (cases "bucket = 0"; cases "required = 0") (auto simp: grow_bucket.simps)
  show "bucket = 0 \<and> 0 < required \<Longrightarrow> grow_bucket required bucket = None"
    using grow_bucket_zero by blast
qed

end
