(* ===== verification/Primitives.thy ===== *)
theory Primitives
  imports Protocol
begin

unbundle bit_operations_syntax

text \<open>
  The cryptographic crates the program calls (\<open>sha2\<close>, \<open>hkdf\<close>, \<open>x25519-dalek\<close>,
  \<open>ed25519-dalek\<close>, \<open>chacha20poly1305\<close>; vendored, third-party) as a parameter of the
  model: one field per call the program makes, and the documented behaviour the program
  relies on as one named law per crate. Fixed-size arrays are byte lists of that length.
\<close>

record primitives =
  pr_sha256 :: "bytes \<Rightarrow> bytes"
  pr_hkdf :: "bytes option \<Rightarrow> bytes \<Rightarrow> bytes \<Rightarrow> nat \<Rightarrow> bytes option"
    \<comment> \<open>salt, input key material, info, output length\<close>
  pr_x25519_public :: "bytes \<Rightarrow> bytes"
  pr_x25519_dh :: "bytes \<Rightarrow> bytes \<Rightarrow> bytes"
  pr_ed_public :: "bytes \<Rightarrow> bytes"
  pr_ed_sign :: "bytes \<Rightarrow> bytes \<Rightarrow> bytes"
  pr_ed_key_ok :: "bytes \<Rightarrow> bool"
  pr_ed_verify_strict :: "bytes \<Rightarrow> bytes \<Rightarrow> bytes \<Rightarrow> bool"
    \<comment> \<open>public key, message, signature\<close>
  pr_aead_encrypt :: "bytes \<Rightarrow> bytes \<Rightarrow> bytes \<Rightarrow> bytes \<Rightarrow> bytes option"
  pr_aead_decrypt :: "bytes \<Rightarrow> bytes \<Rightarrow> bytes \<Rightarrow> bytes \<Rightarrow> bytes option"
    \<comment> \<open>key, nonce, associated data, message or ciphertext with its tag\<close>

section \<open>The laws of the crates\<close>

text \<open>A digest has 32 bytes. HKDF expands to any length up to 255 digests.\<close>

definition hash_law :: "primitives \<Rightarrow> bool" where
  "hash_law P \<longleftrightarrow> (\<forall>m. length (pr_sha256 P m) = 32)"

definition hkdf_law :: "primitives \<Rightarrow> bool" where
  "hkdf_law P \<longleftrightarrow> (\<forall>salt ikm info n. n \<le> 255 * 32 \<longrightarrow>
     (\<exists>out. pr_hkdf P salt ikm info n = Some out \<and> length out = n))"

text \<open>Diffie-Hellman: both sides compute the same shared secret.\<close>

definition dh_law :: "primitives \<Rightarrow> bool" where
  "dh_law P \<longleftrightarrow>
     (\<forall>a. length a = 32 \<longrightarrow> length (pr_x25519_public P a) = 32) \<and>
     (\<forall>a p. length a = 32 \<and> length p = 32 \<longrightarrow> length (pr_x25519_dh P a p) = 32) \<and>
     (\<forall>a b. length a = 32 \<and> length b = 32 \<longrightarrow>
        pr_x25519_dh P a (pr_x25519_public P b) = pr_x25519_dh P b (pr_x25519_public P a))"

text \<open>Signatures have 64 bytes and verify under the signer's public key.\<close>

definition sign_law :: "primitives \<Rightarrow> bool" where
  "sign_law P \<longleftrightarrow>
     (\<forall>sk. length sk = 32 \<longrightarrow> length (pr_ed_public P sk) = 32 \<and> pr_ed_key_ok P (pr_ed_public P sk)) \<and>
     (\<forall>sk m. length sk = 32 \<longrightarrow> length (pr_ed_sign P sk m) = 64 \<and>
        pr_ed_verify_strict P (pr_ed_public P sk) m (pr_ed_sign P sk m))"

text \<open>
  Encryption of anything within ChaCha20's block counter succeeds, adds a 16-byte tag and is
  undone by decryption. What decrypts is what encryption of the result gives: the cipher is
  deterministic and the tag has one correct value.
\<close>

definition aead_max_len :: nat where
  "aead_max_len = 64 * (2 ^ 32 - 1) - 1"

definition aead_law :: "primitives \<Rightarrow> bool" where
  "aead_law P \<longleftrightarrow> (\<forall>k n a m. length k = 32 \<and> length n = 24 \<and> length m \<le> aead_max_len \<longrightarrow>
     (\<exists>c. pr_aead_encrypt P k n a m = Some c \<and> length c = length m + 16 \<and>
        pr_aead_decrypt P k n a c = Some m))"

definition aead_exact :: "primitives \<Rightarrow> bool" where
  "aead_exact P \<longleftrightarrow> (\<forall>k n a c m. pr_aead_decrypt P k n a c = Some m \<longrightarrow>
     pr_aead_encrypt P k n a m = Some c \<and> length c = length m + 16)"

lemma hash_lawD: "hash_law P \<Longrightarrow> length (pr_sha256 P m) = 32"
  by (simp add: hash_law_def)

lemma hkdf_lawE:
  assumes "hkdf_law P" and "n \<le> 255 * 32"
  obtains out where "pr_hkdf P salt ikm info n = Some out" and "length out = n"
  using assms unfolding hkdf_law_def by blast

lemma dh_lawD:
  assumes "dh_law P"
  shows "length a = 32 \<Longrightarrow> length (pr_x25519_public P a) = 32"
    and "length a = 32 \<Longrightarrow> length p = 32 \<Longrightarrow> length (pr_x25519_dh P a p) = 32"
    and "length a = 32 \<Longrightarrow> length b = 32 \<Longrightarrow>
      pr_x25519_dh P a (pr_x25519_public P b) = pr_x25519_dh P b (pr_x25519_public P a)"
  using assms by (auto simp: dh_law_def)

lemma sign_lawD:
  assumes "sign_law P" and "length sk = 32"
  shows "length (pr_ed_public P sk) = 32" and "pr_ed_key_ok P (pr_ed_public P sk)"
    and "length (pr_ed_sign P sk m) = 64"
    and "pr_ed_verify_strict P (pr_ed_public P sk) m (pr_ed_sign P sk m)"
  using assms by (auto simp: sign_law_def)

lemma aead_lawE:
  assumes "aead_law P" and "length k = 32" and "length n = 24" and "length m \<le> aead_max_len"
  obtains c where "pr_aead_encrypt P k n a m = Some c" and "length c = length m + 16"
    and "pr_aead_decrypt P k n a c = Some m"
  using assms unfolding aead_law_def by blast

section \<open>An instance that satisfies every law\<close>

text \<open>
  Not cryptography: a concrete parameter, for the witnesses, at which the laws hold. The
  checksum depends on every byte of its input; the cipher masks with it and checks a tag.
\<close>

definition checksum :: "bytes \<Rightarrow> byte" where
  "checksum m = foldr (\<lambda>b acc. 3 * acc + b + 1) m 0"

definition sample_primitives :: primitives where
  "sample_primitives = \<lparr>
     pr_sha256 = (\<lambda>m. replicate 32 (checksum m)),
     pr_hkdf = (\<lambda>salt ikm info n.
       if n \<le> 255 * 32 then
         Some (replicate n (checksum ((case salt of None \<Rightarrow> [] | Some s \<Rightarrow> s) @ ikm @ info)))
       else None),
     pr_x25519_public = (\<lambda>a. map (\<lambda>b. 5 * b) a),
     pr_x25519_dh = (\<lambda>a p. map2 (*) a p),
     pr_ed_public = (\<lambda>sk. map (\<lambda>b. b + 7) sk),
     pr_ed_sign = (\<lambda>sk m. map (\<lambda>b. b + 7) sk @ replicate 32 (checksum m)),
     pr_ed_key_ok = (\<lambda>pk. length pk = 32),
     pr_ed_verify_strict = (\<lambda>pk m sig. sig = pk @ replicate 32 (checksum m)),
     pr_aead_encrypt = (\<lambda>k n a m.
       Some (map (\<lambda>b. b XOR checksum (k @ n)) m @ replicate 16 (checksum (k @ n @ a @ m)))),
     pr_aead_decrypt = (\<lambda>k n a c.
       let m = map (\<lambda>b. b XOR checksum (k @ n)) (take (length c - 16) c)
       in if 16 \<le> length c \<and> drop (length c - 16) c = replicate 16 (checksum (k @ n @ a @ m))
          then Some m else None)\<rparr>"

lemma sample_laws:
  "hash_law sample_primitives" "hkdf_law sample_primitives" "dh_law sample_primitives"
  "sign_law sample_primitives"
  by (auto simp: sample_primitives_def hash_law_def hkdf_law_def dh_law_def sign_law_def
      mult.left_commute intro!: nth_equalityI)

lemma sample_xor [simp]: "map (\<lambda>b. b XOR x) (map (\<lambda>b. b XOR (x::byte)) m) = m"
  by (induction m) (simp_all add: xor.assoc)

lemma sample_aead_law: "aead_law sample_primitives"
  by (auto simp: sample_primitives_def aead_law_def Let_def simp del: map_map)

lemma sample_aead_exact: "aead_exact sample_primitives"
proof (unfold aead_exact_def, intro allI impI)
  fix k n a c m
  assume "pr_aead_decrypt sample_primitives k n a c = Some m"
  then have len: "16 \<le> length c"
    and tag: "drop (length c - 16) c = replicate 16 (checksum (k @ n @ a @ m))"
    and m: "m = map (\<lambda>b. b XOR checksum (k @ n)) (take (length c - 16) c)"
    by (auto simp: sample_primitives_def Let_def split: if_splits)
  have "map (\<lambda>b. b XOR checksum (k @ n)) m @ drop (length c - 16) c = c"
    by (simp add: m del: map_map)
  with tag have "map (\<lambda>b. b XOR checksum (k @ n)) m @ replicate 16 (checksum (k @ n @ a @ m)) = c"
    by simp
  with len m show "pr_aead_encrypt sample_primitives k n a m = Some c \<and> length c = length m + 16"
    by (simp add: sample_primitives_def)
qed

end
