(* ===== verification/Entropy.thy ===== *)
theory Entropy
  imports World Primitives
begin

text \<open>
  \<open>src/src/entropy.rs\<close>: random bytes from the operating system, and the root seed that
  mixes them with an additional source. A failing source of the system is an error and
  nothing is ever replaced by a weaker source.
\<close>

definition fill_random :: "nat \<Rightarrow> bytes io" where
  "fill_random n w =
     (case getrandom n w of
        (None, w') \<Rightarrow> (Err Randomness, w')
      | (Some bytes, w') \<Rightarrow> (Ok bytes, w'))"

definition random_array :: "nat \<Rightarrow> bytes io" where
  "random_array n = bind_st (fill_random n) (\<lambda>bytes. ret bytes)"

definition u64_to_be_bytes :: "64 word \<Rightarrow> bytes" where
  "u64_to_be_bytes v =
     map (\<lambda>i. ucast (drop_bit (8 * i) v)) [7, 6, 5, 4, 3, 2, 1, 0]"

text \<open>The digest's input, as the chain of updates builds it.\<close>

definition root_seed_input :: "bytes \<Rightarrow> bytes \<Rightarrow> bytes" where
  "root_seed_input os_random human_bytes =
     ascii ''sealed/root-entropy/v1'' @ os_random
     @ u64_to_be_bytes (word_of_nat (length human_bytes)) @ human_bytes"

text \<open>The trait object \<open>AdditionalEntropySource\<close> is its \<open>collect\<close> method.\<close>

definition root_seed :: "primitives \<Rightarrow> bytes io option \<Rightarrow> bytes io" where
  "root_seed P additional =
     bind_st (random_array 32) (\<lambda>os_random.
     bind_st (case additional of Some collect \<Rightarrow> collect | None \<Rightarrow> ret []) (\<lambda>human_bytes.
     ret (pr_sha256 P (root_seed_input os_random human_bytes))))"

section \<open>Properties\<close>

lemma random_array_Ok_iff:
  "random_array n w = (Ok b, w') \<longleftrightarrow>
     (\<exists>g. w_random w (w_random_calls w) = Some g \<and> b = map g [0..<n]
        \<and> w' = w\<lparr>w_random_calls := Suc (w_random_calls w)\<rparr>)"
  by (auto simp: random_array_def fill_random_def getrandom_def bind_st_def
      split: option.splits)

lemma random_array_Err_iff:
  "random_array n w = (Err e, w') \<longleftrightarrow>
     w_random w (w_random_calls w) = None \<and> e = Randomness
       \<and> w' = w\<lparr>w_random_calls := Suc (w_random_calls w)\<rparr>"
  by (auto simp: random_array_def fill_random_def getrandom_def bind_st_def
      split: option.splits)

lemma random_array_length: "random_array n w = (Ok b, w') \<Longrightarrow> length b = n"
  by (auto simp: random_array_Ok_iff)

lemma fill_random_eq: "fill_random n = random_array n"
  by (auto simp: random_array_def)

lemma keeps_random_array [simp]: "keeps looks (random_array n)"
  by (rule keepsI) (auto simp: random_array_def fill_random_def getrandom_def looks_def
      same_process_def bind_st_def split: option.splits)

lemma keeps_fill_random [simp]: "keeps looks (fill_random n)"
  by (simp add: fill_random_eq)

text \<open>What the system supplies from here on: a stretch of the random source.\<close>

definition random_available :: "nat \<Rightarrow> world \<Rightarrow> bool" where
  "random_available n w \<longleftrightarrow> (\<forall>i<n. w_random w (w_random_calls w + i) \<noteq> None)"

definition drawn :: "nat \<Rightarrow> nat \<Rightarrow> world \<Rightarrow> bytes" where
  "drawn i n w = map (the (w_random w (w_random_calls w + i))) [0..<n]"

definition after_random :: "nat \<Rightarrow> world \<Rightarrow> world" where
  "after_random i w = w\<lparr>w_random_calls := w_random_calls w + i\<rparr>"

lemma length_drawn [simp]: "length (drawn i n w) = n"
  by (simp add: drawn_def)

lemma after_random_simps [simp]:
  "after_random 0 w = w" "after_random i (after_random j w) = after_random (i + j) w"
  "w_fs (after_random i w) = w_fs w"
  "drawn i n (after_random j w) = drawn (i + j) n w"
  "no_faults (after_random i w) = no_faults w"
  by (simp_all add: after_random_def drawn_def no_faults_def add.commute add.left_commute)

lemma random_array_drawn:
  "random_available n w \<Longrightarrow> i < n \<Longrightarrow>
   random_array k (after_random i w) = (Ok (drawn i k w), after_random (Suc i) w)"
  by (auto simp: random_array_Ok_iff random_available_def after_random_def drawn_def)

lemma random_array_drawn0:
  "random_available n w \<Longrightarrow> 0 < n \<Longrightarrow>
   random_array k w = (Ok (drawn 0 k w), after_random 1 w)"
  using random_array_drawn [of n w 0 k] by simp

subsection \<open>The root seed\<close>

text \<open>When the system's source fails, so does every request for randomness: a root seed is
  never made from the additional source alone.\<close>

theorem root_seed_needs_system:
  assumes "w_random w (w_random_calls w) = None"
  shows "fst (random_array n w) = Err Randomness \<and> fst (root_seed P additional w) = Err Randomness"
proof -
  have "random_array k w = (Err Randomness, w\<lparr>w_random_calls := Suc (w_random_calls w)\<rparr>)" for k
    using assms by (simp add: random_array_Err_iff)
  then show ?thesis by (simp add: root_seed_def)
qed

text \<open>For instance, in a world without randomness, and a source that would give zeros.\<close>

theorem root_seed_needs_system_example:
  "fst (root_seed sample_primitives (Some (ret [0, 0])) (sample_world\<lparr>w_random := \<lambda>_. None\<rparr>))
     = Err Randomness"
  using root_seed_needs_system [of "sample_world\<lparr>w_random := \<lambda>_. None\<rparr>" 32 sample_primitives
      "Some (ret [0, 0])"] by simp

end
