(* ===== verification/Identity.thy ===== *)
theory Identity
  imports Entropy
begin

unbundle bit_operations_syntax

text \<open>
  \<open>src/src/identity.rs\<close>: public profiles with their text form and fingerprint, the secret
  keys of an identity, the unlock-key file and the encrypted identity file. Both text formats
  are canonical codecs: a value has exactly one accepted form, byte for byte.
\<close>

definition PRIVATE_PLAINTEXT_LEN :: nat where
  [protocol_consts]: "PRIVATE_PLAINTEXT_LEN = 1 + ED25519_SECRET_LEN + X25519_SECRET_LEN"

definition PRIVATE_FILE_MAX_LEN :: nat where
  [protocol_consts]: "PRIVATE_FILE_MAX_LEN = NONCE_LEN + PRIVATE_PLAINTEXT_LEN + 16"

section \<open>Public profiles\<close>

record public_profile =
  pp_version :: byte
  pp_identity_public :: bytes
  pp_agreement_public :: bytes
  pp_fingerprint :: bytes

definition fingerprint :: "primitives \<Rightarrow> byte \<Rightarrow> bytes \<Rightarrow> bytes \<Rightarrow> bytes" where
  "fingerprint P profile_version identity_public agreement_public =
     pr_sha256 P (FINGERPRINT_DOMAIN @ [profile_version] @ identity_public @ agreement_public)"

definition profile_new :: "primitives \<Rightarrow> bytes \<Rightarrow> bytes \<Rightarrow> public_profile" where
  "profile_new P identity_public agreement_public =
     \<lparr>pp_version = PROFILE_VERSION,
      pp_identity_public = identity_public,
      pp_agreement_public = agreement_public,
      pp_fingerprint = fingerprint P PROFILE_VERSION identity_public agreement_public\<rparr>"

definition profile_encode :: "public_profile \<Rightarrow> bytes" where
  "profile_encode p =
     PROFILE_PREFIX @ newline #
     ascii ''ed25519='' @ hex_encode (pp_identity_public p) @ newline #
     ascii ''x25519='' @ hex_encode (pp_agreement_public p) @ newline #
     ascii ''fingerprint='' @ hex_encode (pp_fingerprint p) @ [newline]"

definition parse_field :: "nat \<Rightarrow> bytes option \<Rightarrow> bytes \<Rightarrow> bytes result" where
  "parse_field n line prefix_text =
     and_then (ok_or (InvalidInput ''public profile field is missing'') line) (\<lambda>line.
     and_then (ok_or (InvalidInput ''invalid public profile field'')
                 (strip_prefix prefix_text line)) (\<lambda>encoded.
     hex_decode n encoded))"

definition profile_parse :: "primitives \<Rightarrow> bytes \<Rightarrow> public_profile result" where
  "profile_parse P bytes =
     (if length bytes > 512 then Err (InvalidInput ''public profile is too large'')
      else if \<not> utf8_valid bytes then Err (InvalidInput ''public profile is not UTF-8'')
      else
        let (line0, lines1) = iter_next (str_lines bytes) in
        if line0 \<noteq> Some PROFILE_PREFIX then Err (InvalidInput ''unsupported public profile'')
        else
          let (line1, lines2) = iter_next lines1 in
          and_then (parse_field 32 line1 (ascii ''ed25519='')) (\<lambda>identity_public.
          let (line2, lines3) = iter_next lines2 in
          and_then (parse_field 32 line2 (ascii ''x25519='')) (\<lambda>agreement_public.
          let (line3, lines4) = iter_next lines3 in
          and_then (parse_field 32 line3 (ascii ''fingerprint='')) (\<lambda>supplied_fingerprint.
          if fst (iter_next lines4) \<noteq> None then
            Err (InvalidInput ''unexpected public profile field'')
          else
            let profile = profile_new P identity_public agreement_public in
            if pp_fingerprint profile \<noteq> supplied_fingerprint then
              Err (InvalidInput ''public profile fingerprint is invalid'')
            else if profile_encode profile \<noteq> bytes then
              Err (InvalidInput ''public profile encoding is not canonical'')
            else Ok profile))))"

text \<open>\<open>[u8; 64]\<close>: the first half is overwritten with one key, the second with the other.\<close>

definition canonical_key_material :: "public_profile \<Rightarrow> bytes" where
  "canonical_key_material p = pp_identity_public p @ pp_agreement_public p"

subsection \<open>Well-formed profiles\<close>

text \<open>
  The type invariant of a profile: the arrays have their sizes, the version is the supported
  one and the fingerprint is the one of the keys.
\<close>

definition profile_ok :: "primitives \<Rightarrow> public_profile \<Rightarrow> bool" where
  "profile_ok P p \<longleftrightarrow>
     length (pp_identity_public p) = 32 \<and> length (pp_agreement_public p) = 32 \<and>
     length (pp_fingerprint p) = 32 \<and>
     p = profile_new P (pp_identity_public p) (pp_agreement_public p)"

lemma profile_new_simps [simp]:
  "pp_version (profile_new P i a) = PROFILE_VERSION"
  "pp_identity_public (profile_new P i a) = i"
  "pp_agreement_public (profile_new P i a) = a"
  "pp_fingerprint (profile_new P i a) = fingerprint P PROFILE_VERSION i a"
  by (simp_all add: profile_new_def)

lemma profile_new_ok:
  "hash_law P \<Longrightarrow> length i = 32 \<Longrightarrow> length a = 32 \<Longrightarrow> profile_ok P (profile_new P i a)"
  by (simp add: profile_ok_def fingerprint_def hash_lawD)

text \<open>A well-formed profile is its two keys.\<close>

lemma profile_ok_eq_iff:
  "profile_ok P p \<Longrightarrow> profile_ok P q \<Longrightarrow>
     p = q \<longleftrightarrow> pp_identity_public p = pp_identity_public q
       \<and> pp_agreement_public p = pp_agreement_public q"
  by (metis profile_ok_def)

subsection \<open>The text form\<close>

lemma no_newline_ascii_prefixes:
  "newline \<notin> set (ascii ''ed25519='')" "newline \<notin> set (ascii ''x25519='')"
  "newline \<notin> set (ascii ''fingerprint='')" "newline \<notin> set PROFILE_PREFIX"
  "newline \<notin> set UNLOCK_PREFIX"
  by (simp_all add: ascii_def PROFILE_PREFIX_def UNLOCK_PREFIX_def)

lemma no_cr_ascii_prefixes:
  "carriage_return \<notin> set (ascii ''ed25519='')" "carriage_return \<notin> set (ascii ''x25519='')"
  "carriage_return \<notin> set (ascii ''fingerprint='')" "carriage_return \<notin> set PROFILE_PREFIX"
  "carriage_return \<notin> set UNLOCK_PREFIX"
  by (simp_all add: ascii_def PROFILE_PREFIX_def UNLOCK_PREFIX_def)

lemma all_ascii_prefixes [simp]:
  "all_ascii (ascii ''ed25519='')" "all_ascii (ascii ''x25519='')"
  "all_ascii (ascii ''fingerprint='')" "all_ascii PROFILE_PREFIX" "all_ascii UNLOCK_PREFIX"
  by (simp_all add: ascii_def PROFILE_PREFIX_def UNLOCK_PREFIX_def)

lemma no_newline_hex: "newline \<notin> set (hex_encode b)" "carriage_return \<notin> set (hex_encode b)"
  using hex_encode_ascii by blast+

lemma all_ascii_hex [simp]: "all_ascii (hex_encode b)"
  using hex_encode_ascii by (auto simp: all_ascii_def)

text \<open>A line of plain text at the front of the rest of a file.\<close>

lemma str_lines_plain:
  "newline \<notin> set l \<Longrightarrow> carriage_return \<notin> set l \<Longrightarrow>
     str_lines (l @ newline # rest) = l # str_lines rest"
  by (simp add: str_lines_newline strip_cr_id)

lemma str_lines_profile:
  "str_lines (profile_encode p) =
     [PROFILE_PREFIX,
      ascii ''ed25519='' @ hex_encode (pp_identity_public p),
      ascii ''x25519='' @ hex_encode (pp_agreement_public p),
      ascii ''fingerprint='' @ hex_encode (pp_fingerprint p)]"
proof -
  have "profile_encode p =
      PROFILE_PREFIX @ newline #
      (ascii ''ed25519='' @ hex_encode (pp_identity_public p)) @ newline #
      (ascii ''x25519='' @ hex_encode (pp_agreement_public p)) @ newline #
      (ascii ''fingerprint='' @ hex_encode (pp_fingerprint p)) @ newline # []"
    by (simp add: profile_encode_def)
  then show ?thesis
    by (simp only: str_lines_plain str_lines.simps(1) no_newline_ascii_prefixes
        no_cr_ascii_prefixes no_newline_hex set_append Un_iff simp_thms)
qed

lemma length_profile_encode:
  "profile_ok P p \<Longrightarrow> length (profile_encode p) = 240"
  by (simp add: profile_encode_def profile_ok_def PROFILE_PREFIX_def)

lemma utf8_profile_encode: "utf8_valid (profile_encode p)"
  by (rule utf8_valid_ascii) (simp add: profile_encode_def)

lemma parse_field_Ok_iff:
  "parse_field n line pre = Ok v \<longleftrightarrow>
     (\<exists>encoded. line = Some (pre @ encoded) \<and> hex_decode n encoded = Ok v)"
  by (auto simp: parse_field_def and_then_Inr_iff strip_prefix_Some_iff)

lemma profile_parse_encode:
  assumes "profile_ok P p"
  shows "profile_parse P (profile_encode p) = Ok p"
proof -
  have "parse_field 32 (Some (pre @ hex_encode b)) pre = Ok b" if "length b = 32" for pre b
    using that by (simp add: parse_field_def hex_decode_encode)
  moreover have "pp_fingerprint p = fingerprint P PROFILE_VERSION (pp_identity_public p)
      (pp_agreement_public p)"
    using assms by (metis profile_ok_def profile_new_simps(4))
  moreover have "profile_new P (pp_identity_public p) (pp_agreement_public p) = p"
    using assms by (simp add: profile_ok_def)
  ultimately show ?thesis
    using assms length_profile_encode [OF assms] utf8_profile_encode [of p]
    by (simp add: profile_parse_def str_lines_profile profile_ok_def Let_def)
qed

lemma profile_parse_Ok:
  assumes "profile_parse P bytes = Ok p"
  shows "profile_ok P p \<and> profile_encode p = bytes"
  using assms
  by (auto simp: profile_parse_def Let_def case_prod_unfold and_then_Inr_iff parse_field_Ok_iff
      profile_ok_def split: if_splits dest!: hex_decode_Ok)

interpretation profile: canonical_codec profile_encode "profile_parse P" "profile_ok P"
  by unfold_locales (rule profile_parse_encode, assumption, rule profile_parse_Ok)

section \<open>Formatted fingerprints\<close>

text \<open>\<open>slice::chunks\<close>, and the loop that joins them.\<close>

fun chunks :: "nat \<Rightarrow> 'a list \<Rightarrow> 'a list list" where
  "chunks n xs = (if xs = [] \<or> n = 0 then [] else take n xs # chunks n (drop n xs))"

declare chunks.simps [simp del]

abbreviation hyphen :: byte where "hyphen \<equiv> 0x2D"

fun join_chunks :: "nat \<Rightarrow> bytes list \<Rightarrow> bytes" where
  "join_chunks index [] = []"
| "join_chunks index (chunk # rest) =
     (if index \<noteq> 0 then [hyphen] else []) @ chunk @ join_chunks (Suc index) rest"

definition format_fingerprint :: "bytes \<Rightarrow> bytes" where
  "format_fingerprint fp = join_chunks 0 (chunks 4 (to_ascii_uppercase (hex_encode fp)))"

definition formatted_fingerprint :: "public_profile \<Rightarrow> bytes" where
  "formatted_fingerprint p = format_fingerprint (pp_fingerprint p)"

lemma chunks_Nil [simp]: "chunks n [] = []"
  by (simp add: chunks.simps)

lemma concat_chunks: "0 < n \<Longrightarrow> concat (chunks n xs) = xs"
proof (induction n xs rule: chunks.induct)
  case (1 n xs)
  then show ?case by (cases "xs = []") (simp_all add: chunks.simps [of n xs])
qed

lemma length_chunks: "0 < n \<Longrightarrow> length xs = n * k \<Longrightarrow> length (chunks n xs) = k"
proof (induction k arbitrary: xs)
  case 0
  then show ?case by (simp add: chunks.simps)
next
  case (Suc k)
  then show ?case by (auto simp: chunks.simps [of n xs])
qed

lemma length_join_chunks:
  "length (join_chunks i cs) = length (concat cs) + (if i = 0 then length cs - 1 else length cs)"
  by (induction i cs rule: join_chunks.induct) auto

lemma filter_join_chunks:
  "filter (\<lambda>b. b \<noteq> hyphen) (join_chunks i cs) = filter (\<lambda>b. b \<noteq> hyphen) (concat cs)"
  by (induction i cs rule: join_chunks.induct) auto

text \<open>Upper-case hexadecimal decodes to the same bytes and contains no hyphen.\<close>

lemma hex_nibble_upper:
  "n < 16 \<Longrightarrow> hex_nibble (ascii_upper (hex_alphabet ! n)) = Ok (word_of_nat n)
     \<and> ascii_upper (hex_alphabet ! n) \<noteq> hyphen"
proof -
  assume "n < 16"
  moreover have "\<forall>n\<in>set [0..<16]. hex_nibble (ascii_upper (hex_alphabet ! n)) = Ok (word_of_nat n)
      \<and> ascii_upper (hex_alphabet ! n) \<noteq> hyphen"
    by code_simp
  ultimately show ?thesis by simp
qed

lemma hex_decode_loop_upper:
  "hex_decode_loop (to_ascii_uppercase (hex_encode bs)) 0 (length bs) = Ok bs"
proof (induction bs)
  case (Cons b bs)
  have h: "hex_nibble (ascii_upper (hex_alphabet ! unat (drop_bit 4 b))) = Ok (drop_bit 4 b)"
    using hex_nibble_upper [OF nibble_bounds(1) [of b]] by simp
  have l: "hex_nibble (ascii_upper (hex_alphabet ! unat (b AND 0x0F))) = Ok (b AND 0x0F)"
    using hex_nibble_upper [OF nibble_bounds(2) [of b]] by simp
  have "hex_decode_loop
      (ascii_upper (hex_alphabet ! unat (drop_bit 4 b)) #
       ascii_upper (hex_alphabet ! unat (b AND 0x0F)) #
       to_ascii_uppercase (hex_encode bs)) 0 (Suc (length bs)) = Ok (b # bs)"
    by (simp add: h l hex_decode_loop_shift Cons nibbles_join)
  then show ?case by (simp add: to_ascii_uppercase_def)
qed simp

lemma no_hyphen_upper_hex: "hyphen \<notin> set (to_ascii_uppercase (hex_encode bs))"
  using hex_nibble_upper [OF nibble_bounds(1)] hex_nibble_upper [OF nibble_bounds(2)]
  by (induction bs) (auto simp: to_ascii_uppercase_def)

lemma filter_format_fingerprint:
  "filter (\<lambda>b. b \<noteq> hyphen) (format_fingerprint fp) = to_ascii_uppercase (hex_encode fp)"
  using no_hyphen_upper_hex [of fp]
  by (simp add: format_fingerprint_def filter_join_chunks concat_chunks filter_id_conv) blast

lemma length_format_fingerprint:
  assumes "length fp = 32"
  shows "length (format_fingerprint fp) = 79"
proof -
  have "length (to_ascii_uppercase (hex_encode fp)) = 4 * 16"
    using assms by (simp add: to_ascii_uppercase_def)
  from length_chunks [OF _ this] show ?thesis
    using assms by (simp add: format_fingerprint_def length_join_chunks concat_chunks
        to_ascii_uppercase_def)
qed

lemma format_fingerprint_inject: "format_fingerprint a = format_fingerprint b \<longleftrightarrow> a = b"
proof
  assume "format_fingerprint a = format_fingerprint b"
  then have eq: "to_ascii_uppercase (hex_encode a) = to_ascii_uppercase (hex_encode b)"
    by (metis filter_format_fingerprint)
  then have "length a = length b"
    by (metis length_hex_encode length_map mult_left_cancel to_ascii_uppercase_def zero_neq_numeral)
  with eq show "a = b" by (metis hex_decode_loop_upper sum.inject(2))
qed simp

section \<open>Identity secrets\<close>

record identity_secrets =
  is_identity_secret :: bytes
  is_agreement_secret :: bytes

definition secrets_from_bytes :: "bytes \<Rightarrow> bytes \<Rightarrow> identity_secrets" where
  "secrets_from_bytes identity_secret agreement_secret =
     \<lparr>is_identity_secret = identity_secret, is_agreement_secret = agreement_secret\<rparr>"

definition secrets_profile :: "primitives \<Rightarrow> identity_secrets \<Rightarrow> public_profile" where
  "secrets_profile P secrets =
     profile_new P (pr_ed_public P (is_identity_secret secrets))
       (pr_x25519_public P (is_agreement_secret secrets))"

definition secrets_generate :: "primitives \<Rightarrow> (identity_secrets \<times> public_profile) io" where
  "secrets_generate P =
     bind_st (random_array ED25519_SECRET_LEN) (\<lambda>identity_secret.
     bind_st (random_array X25519_SECRET_LEN) (\<lambda>agreement_secret.
     let secrets = \<lparr>is_identity_secret = identity_secret,
                    is_agreement_secret = agreement_secret\<rparr>
     in ret (secrets, secrets_profile P secrets)))"

definition secrets_ok :: "identity_secrets \<Rightarrow> bool" where
  "secrets_ok s \<longleftrightarrow> length (is_identity_secret s) = 32 \<and> length (is_agreement_secret s) = 32"

lemma secrets_profile_ok:
  "hash_law P \<Longrightarrow> dh_law P \<Longrightarrow> sign_law P \<Longrightarrow> secrets_ok s \<Longrightarrow> profile_ok P (secrets_profile P s)"
  by (simp add: secrets_profile_def secrets_ok_def profile_new_ok sign_lawD dh_lawD)

lemma keeps_secrets_generate [simp]: "keeps looks (secrets_generate P)"
  unfolding secrets_generate_def Let_def by (intro looking.keeps_rules keeps_random_array) auto

lemma secrets_generate_Ok:
  "secrets_generate P w = (Ok (s, p), w') \<Longrightarrow> secrets_ok s \<and> p = secrets_profile P s"
  by (auto simp: secrets_generate_def bind_st_Ok_iff secrets_ok_def protocol_consts Let_def
      dest: random_array_length)

section \<open>The unlock key\<close>

definition encode_unlock_key :: "bytes \<Rightarrow> bytes" where
  "encode_unlock_key unlock_key = UNLOCK_PREFIX @ newline # hex_encode unlock_key @ [newline]"

definition parse_unlock_key :: "bytes \<Rightarrow> bytes result" where
  "parse_unlock_key bytes =
     (if length bytes > 128 then Err (InvalidInput ''unlock key file is too large'')
      else if \<not> utf8_valid bytes then Err (InvalidInput ''unlock key file is not UTF-8'')
      else
        let (line0, lines1) = iter_next (str_lines bytes) in
        if line0 \<noteq> Some UNLOCK_PREFIX then Err (InvalidInput ''unsupported unlock key file'')
        else
          let (line1, lines2) = iter_next lines1 in
          and_then (ok_or (InvalidInput ''unlock key is missing'') line1) (\<lambda>encoded.
          if fst (iter_next lines2) \<noteq> None then
            Err (InvalidInput ''unexpected unlock key field'')
          else and_then (hex_decode 32 encoded) (\<lambda>key.
            if encode_unlock_key key \<noteq> bytes then
              Err (InvalidInput ''unlock key encoding is not canonical'')
            else Ok key)))"

lemma str_lines_unlock: "str_lines (encode_unlock_key k) = [UNLOCK_PREFIX, hex_encode k]"
proof -
  have "encode_unlock_key k = UNLOCK_PREFIX @ newline # hex_encode k @ newline # []"
    by (simp add: encode_unlock_key_def)
  then show ?thesis
    by (simp only: str_lines_plain str_lines.simps(1) no_newline_ascii_prefixes
        no_cr_ascii_prefixes no_newline_hex simp_thms)
qed

lemma length_encode_unlock_key: "length k = 32 \<Longrightarrow> length (encode_unlock_key k) = 82"
  by (simp add: encode_unlock_key_def UNLOCK_PREFIX_def)

lemma utf8_encode_unlock_key: "utf8_valid (encode_unlock_key k)"
  by (rule utf8_valid_ascii) (simp add: encode_unlock_key_def)

lemma parse_encode_unlock_key:
  "length k = 32 \<Longrightarrow> parse_unlock_key (encode_unlock_key k) = Ok k"
  by (simp add: parse_unlock_key_def str_lines_unlock length_encode_unlock_key
      utf8_encode_unlock_key Let_def hex_decode_encode)

lemma parse_unlock_key_Ok:
  "parse_unlock_key bytes = Ok k \<Longrightarrow> length k = 32 \<and> encode_unlock_key k = bytes"
  by (auto simp: parse_unlock_key_def Let_def case_prod_unfold and_then_Inr_iff
      split: if_splits dest!: hex_decode_Ok)

interpretation unlock: canonical_codec encode_unlock_key parse_unlock_key "\<lambda>k. length k = 32"
  by unfold_locales (rule parse_encode_unlock_key, assumption, rule parse_unlock_key_Ok)

section \<open>The identity at rest\<close>

definition private_plaintext :: "identity_secrets \<Rightarrow> bytes" where
  "private_plaintext secrets =
     [PROFILE_VERSION] @ is_identity_secret secrets @ is_agreement_secret secrets"

definition encrypt_private_identity ::
  "primitives \<Rightarrow> identity_secrets \<Rightarrow> bytes \<Rightarrow> bytes io" where
  "encrypt_private_identity P secrets unlock_key =
     bind_st (random_array NONCE_LEN) (\<lambda>nonce.
     bind_st (lift_result (ok_or Authentication
       (pr_aead_encrypt P unlock_key nonce IDENTITY_AAD_DOMAIN (private_plaintext secrets))))
       (\<lambda>ciphertext. ret (nonce @ ciphertext)))"

definition decrypt_private_identity ::
  "primitives \<Rightarrow> bytes \<Rightarrow> bytes \<Rightarrow> identity_secrets result" where
  "decrypt_private_identity P encrypted unlock_key =
     (if length encrypted \<noteq> PRIVATE_FILE_MAX_LEN then Err Authentication
      else
        let nonce = take NONCE_LEN encrypted; ciphertext = drop NONCE_LEN encrypted in
        and_then (ok_or Authentication
          (pr_aead_decrypt P unlock_key nonce IDENTITY_AAD_DOMAIN ciphertext)) (\<lambda>plaintext.
        if length plaintext \<noteq> PRIVATE_PLAINTEXT_LEN \<or> plaintext ! 0 \<noteq> PROFILE_VERSION then
          Err Authentication
        else
          let identity_secret = take 32 (drop 1 plaintext);
              agreement_secret = take 32 (drop 33 plaintext)
          in Ok (secrets_from_bytes identity_secret agreement_secret)))"

lemma keeps_encrypt_private_identity [simp]:
  "keeps looks (encrypt_private_identity P s k)"
  unfolding encrypt_private_identity_def
  by (intro looking.keeps_rules keeps_random_array) auto

lemma length_private_plaintext:
  "secrets_ok s \<Longrightarrow> length (private_plaintext s) = PRIVATE_PLAINTEXT_LEN"
  by (simp add: private_plaintext_def secrets_ok_def protocol_consts)

lemma private_plaintext_parts:
  assumes "secrets_ok s"
  shows "private_plaintext s ! 0 = PROFILE_VERSION"
    and "secrets_from_bytes (take 32 (drop 1 (private_plaintext s)))
      (take 32 (drop 33 (private_plaintext s))) = s"
  using assms by (simp_all add: private_plaintext_def secrets_ok_def secrets_from_bytes_def)

lemma encrypt_private_identity_Ok:
  assumes "aead_law P" and "secrets_ok s" and "length k = 32"
    and run: "encrypt_private_identity P s k w = (Ok c, w')"
  shows "length c = PRIVATE_FILE_MAX_LEN \<and> decrypt_private_identity P c k = Ok s"
proof -
  from run obtain nonce ct where n: "random_array NONCE_LEN w = (Ok nonce, w')"
    and ct: "pr_aead_encrypt P k nonce IDENTITY_AAD_DOMAIN (private_plaintext s) = Some ct"
    and c: "c = nonce @ ct"
    by (auto simp: encrypt_private_identity_def bind_st_Ok_iff)
  have ln: "length nonce = 24" using random_array_length [OF n] by (simp add: NONCE_LEN_def)
  have "length (private_plaintext s) \<le> aead_max_len"
    using assms(2) by (simp add: length_private_plaintext protocol_consts aead_max_len_def)
  from aead_lawE [OF assms(1,3) ln this] ct
  have "length ct = length (private_plaintext s) + 16"
    "pr_aead_decrypt P k nonce IDENTITY_AAD_DOMAIN ct = Some (private_plaintext s)"
    by (metis option.inject)+
  then show ?thesis
    using private_plaintext_parts [OF assms(2)] length_private_plaintext [OF assms(2)] ln
    by (simp add: c decrypt_private_identity_def protocol_consts Let_def)
qed

lemma encrypt_private_identity_runs:
  assumes "aead_law P" and "secrets_ok s" and "length k = 32" and "random_available n w" "0 < n"
  shows "\<exists>c. encrypt_private_identity P s k w = (Ok c, after_random 1 w)"
proof -
  have "length (private_plaintext s) \<le> aead_max_len"
    using assms(2) by (simp add: length_private_plaintext protocol_consts aead_max_len_def)
  from aead_lawE [OF assms(1,3) _ this, of "drawn 0 24 w"] obtain ct where
    "pr_aead_encrypt P k (drawn 0 24 w) IDENTITY_AAD_DOMAIN (private_plaintext s) = Some ct"
    by auto
  then show ?thesis
    using random_array_drawn0 [OF assms(4,5), of NONCE_LEN]
    by (simp add: encrypt_private_identity_def NONCE_LEN_def bind_st_def)
qed

lemma decrypt_private_identity_error:
  "decrypt_private_identity P c k = Err e \<Longrightarrow> e = Authentication"
  by (auto simp: decrypt_private_identity_def and_then_Inl_iff ok_or_def Let_def
      split: if_splits option.splits)

lemma decrypt_private_identity_Ok:
  assumes "decrypt_private_identity P c k = Ok s"
  shows "secrets_ok s"
    and "aead_exact P \<Longrightarrow> pr_aead_encrypt P k (take NONCE_LEN c) IDENTITY_AAD_DOMAIN
       (private_plaintext s) = Some (drop NONCE_LEN c)"
proof -
  from assms obtain pt where
    pt: "pr_aead_decrypt P k (take NONCE_LEN c) IDENTITY_AAD_DOMAIN (drop NONCE_LEN c) = Some pt"
    and len: "length pt = 65" "pt ! 0 = PROFILE_VERSION"
    and s: "s = secrets_from_bytes (take 32 (drop 1 pt)) (take 32 (drop 33 pt))"
    by (auto simp: decrypt_private_identity_def and_then_Inr_iff Let_def protocol_consts
        split: if_splits)
  show "secrets_ok s" using len by (simp add: s secrets_from_bytes_def secrets_ok_def)
  have "take 1 pt = [PROFILE_VERSION]" using len by (cases pt) auto
  moreover have "take 32 (drop 33 pt) = drop 33 pt" using len by simp
  moreover have "take 32 (drop 1 pt) @ drop 33 pt = drop 1 pt"
    using append_take_drop_id [of 32 "drop 1 pt"] by simp
  ultimately have "private_plaintext s = pt"
    by (metis append_take_drop_id identity_secrets.select_convs private_plaintext_def
        s secrets_from_bytes_def)
  then show "aead_exact P \<Longrightarrow> pr_aead_encrypt P k (take NONCE_LEN c) IDENTITY_AAD_DOMAIN
       (private_plaintext s) = Some (drop NONCE_LEN c)"
    using pt by (simp add: aead_exact_def)
qed

section \<open>Properties of the stored forms\<close>

text \<open>C21: A profile is parsed from exactly one byte string, its encoding, and only when its
  fingerprint is the one of its keys.\<close>

theorem profile_parse_exact:
  "profile_parse P bytes = Ok p \<longleftrightarrow> profile_ok P p \<and> bytes = profile_encode p"
  by (rule profile.dec_Ok_iff)

text \<open>C32: An unlock key is parsed from exactly one byte string, its encoding.\<close>

theorem unlock_key_parse_exact:
  "parse_unlock_key bytes = Ok k \<longleftrightarrow> length k = 32 \<and> bytes = encode_unlock_key k"
  by (rule unlock.dec_Ok_iff)

text \<open>Two fingerprints are displayed alike only if they are the same.\<close>

theorem fingerprint_display_inject:
  "formatted_fingerprint p = formatted_fingerprint q \<longleftrightarrow> pp_fingerprint p = pp_fingerprint q"
  by (simp add: formatted_fingerprint_def format_fingerprint_inject)

text \<open>C22: What \<open>encrypt_private_identity\<close> writes has the one accepted length and decrypts, under
  the same unlock key, to the same secrets.\<close>

theorem identity_at_rest_roundtrip:
  assumes "aead_law P" and "secrets_ok s" and "length k = 32"
    and "encrypt_private_identity P s k w = (Ok c, w')"
  shows "length c = PRIVATE_FILE_MAX_LEN \<and> decrypt_private_identity P c k = Ok s"
  using assms by (rule encrypt_private_identity_Ok)

text \<open>Witness of C22: a file written with the first random bytes as its nonce.\<close>

theorem identity_at_rest_roundtrip_witness:
  "\<exists>c. encrypt_private_identity sample_primitives
      (secrets_from_bytes (replicate 32 1) (replicate 32 2)) (replicate 32 3) sample_world
        = (Ok c, after_random 1 sample_world) \<and>
    decrypt_private_identity sample_primitives c (replicate 32 3)
      = Ok (secrets_from_bytes (replicate 32 1) (replicate 32 2))"
proof -
  have s: "secrets_ok (secrets_from_bytes (replicate 32 1) (replicate 32 2))"
    by (simp add: secrets_ok_def secrets_from_bytes_def)
  have "random_available 1 sample_world" by (simp add: random_available_def sample_world_def)
  from encrypt_private_identity_runs [OF sample_aead_law s _ this, of "replicate 32 3"]
  obtain c where c: "encrypt_private_identity sample_primitives
      (secrets_from_bytes (replicate 32 1) (replicate 32 2)) (replicate 32 3) sample_world
        = (Ok c, after_random 1 sample_world)" by auto
  with identity_at_rest_roundtrip [OF sample_aead_law s _ c] show ?thesis by auto
qed

end
