(* ===== verification/Crypto.thy ===== *)
theory Crypto
  imports Identity
begin

text \<open>
  \<open>src/src/crypto.rs\<close>: the keys derived from Diffie-Hellman secrets, the signed bytes of a
  letter and the associated data of the outer layer.
\<close>

section \<open>Key derivation\<close>

definition hkdf_32 :: "primitives \<Rightarrow> bytes option \<Rightarrow> bytes \<Rightarrow> bytes \<Rightarrow> bytes result" where
  "hkdf_32 P salt input info =
     ok_or (InvalidInput ''HKDF output length is invalid'') (pr_hkdf P salt input info 32)"

definition reject_all_zero :: "bytes \<Rightarrow> unit result" where
  "reject_all_zero shared = (if list_all (\<lambda>b. b = 0) shared then Err Authentication else Ok ())"

text \<open>The comparison of the two key materials is the lexicographic one of byte lists.\<close>

definition derive_contact_root ::
  "primitives \<Rightarrow> identity_secrets \<Rightarrow> public_profile \<Rightarrow> public_profile \<Rightarrow> bytes result" where
  "derive_contact_root P local_secrets local_profile peer_profile =
     (if secrets_profile P local_secrets \<noteq> local_profile then
        Err (InvalidInput ''local public profile does not match private identity'')
      else
        let shared = pr_x25519_dh P (is_agreement_secret local_secrets)
                       (pp_agreement_public peer_profile) in
        and_then (reject_all_zero shared) (\<lambda>_.
        let local_material = canonical_key_material local_profile;
            peer_material = canonical_key_material peer_profile;
            (first, second) =
              (if local_material \<le> peer_material then (local_material, peer_material)
               else (peer_material, local_material));
            info = CONTACT_ROOT_INFO @ first @ second
        in hkdf_32 P (Some CONTACT_ROOT_SALT) shared info))"

definition derive_stego_key :: "primitives \<Rightarrow> bytes \<Rightarrow> bytes result" where
  "derive_stego_key P contact_root = hkdf_32 P (Some SUBKEY_SALT) contact_root STEGO_INFO"

definition derive_message_key_from_shared ::
  "primitives \<Rightarrow> bytes \<Rightarrow> bytes \<Rightarrow> bytes \<Rightarrow> bytes result" where
  "derive_message_key_from_shared P shared ephemeral_public recipient_agreement_public =
     hkdf_32 P (Some MESSAGE_KEY_SALT) shared
       (MESSAGE_KEY_INFO @ ephemeral_public @ recipient_agreement_public)"

definition derive_message_key_sender ::
  "primitives \<Rightarrow> bytes \<Rightarrow> bytes \<Rightarrow> bytes \<Rightarrow> bytes result" where
  "derive_message_key_sender P ephemeral_secret ephemeral_public recipient_agreement_public =
     (let shared = pr_x25519_dh P ephemeral_secret recipient_agreement_public in
      and_then (reject_all_zero shared) (\<lambda>_.
      derive_message_key_from_shared P shared ephemeral_public recipient_agreement_public))"

definition derive_message_key_recipient ::
  "primitives \<Rightarrow> bytes \<Rightarrow> bytes \<Rightarrow> bytes \<Rightarrow> bytes result" where
  "derive_message_key_recipient P recipient_agreement_secret ephemeral_public
     recipient_agreement_public =
     (let shared = pr_x25519_dh P recipient_agreement_secret ephemeral_public in
      and_then (reject_all_zero shared) (\<lambda>_.
      derive_message_key_from_shared P shared ephemeral_public recipient_agreement_public))"

section \<open>Signatures\<close>

text \<open>\<open>u32::try_from\<close>\<close>

definition u32_try_from :: "nat \<Rightarrow> 32 word option" where
  "u32_try_from n = (if n < 2 ^ 32 then Some (word_of_nat n) else None)"

definition signature_input ::
  "public_profile \<Rightarrow> bytes \<Rightarrow> bytes \<Rightarrow> bytes \<Rightarrow> bytes result" where
  "signature_input sender recipient_fingerprint message_id body =
     and_then (ok_or (InvalidInput ''message body is too large'') (u32_try_from (length body)))
       (\<lambda>body_len.
     Ok (SIGNATURE_DOMAIN @ [PROTOCOL_VERSION] @ [CRYPTO_SUITE_CLASSICAL_V1]
         @ pp_identity_public sender @ pp_agreement_public sender @ recipient_fingerprint
         @ message_id @ u32_to_be_bytes body_len @ body))"

definition sign_message ::
  "primitives \<Rightarrow> identity_secrets \<Rightarrow> public_profile \<Rightarrow> bytes \<Rightarrow> bytes \<Rightarrow> bytes \<Rightarrow> bytes result" where
  "sign_message P secrets sender recipient_fingerprint message_id body =
     (if secrets_profile P secrets \<noteq> sender then
        Err (InvalidInput ''sender public profile does not match private identity'')
      else
        and_then (signature_input sender recipient_fingerprint message_id body) (\<lambda>input.
        Ok (pr_ed_sign P (is_identity_secret secrets) input)))"

definition verify_message_signature ::
  "primitives \<Rightarrow> public_profile \<Rightarrow> bytes \<Rightarrow> bytes \<Rightarrow> bytes \<Rightarrow> bytes \<Rightarrow> unit result" where
  "verify_message_signature P sender recipient_fingerprint message_id body signature =
     (if \<not> pr_ed_key_ok P (pp_identity_public sender) then Err Authentication
      else
        and_then (signature_input sender recipient_fingerprint message_id body) (\<lambda>input.
        if pr_ed_verify_strict P (pp_identity_public sender) input signature then Ok ()
        else Err Authentication))"

definition outer_aad :: "bytes \<Rightarrow> bytes \<Rightarrow> bytes" where
  "outer_aad ephemeral_public nonce = OUTER_AAD_DOMAIN @ ephemeral_public @ nonce"

section \<open>Properties\<close>

subsection \<open>Both sides derive the same keys\<close>

lemma contact_root_info_sym:
  "(if a \<le> b then (a, b) else (b, a)) = (if b \<le> a then (b, a) else (a, b))"
  for a b :: bytes
  by auto

lemma derive_contact_root_symmetric:
  assumes "dh_law P" and "secrets_ok a" and "secrets_ok b"
  shows "derive_contact_root P a (secrets_profile P a) (secrets_profile P b) =
    derive_contact_root P b (secrets_profile P b) (secrets_profile P a)"
proof -
  have "pr_x25519_dh P (is_agreement_secret a) (pp_agreement_public (secrets_profile P b)) =
      pr_x25519_dh P (is_agreement_secret b) (pp_agreement_public (secrets_profile P a))"
    using assms by (simp add: secrets_profile_def secrets_ok_def dh_lawD(3))
  then show ?thesis
    unfolding derive_contact_root_def Let_def
    by (simp add: contact_root_info_sym [of "canonical_key_material (secrets_profile P a)"])
qed

lemma message_key_agreement:
  assumes "dh_law P" and "length e = 32" and "length r = 32"
  shows "derive_message_key_recipient P r (pr_x25519_public P e) (pr_x25519_public P r) =
    derive_message_key_sender P e (pr_x25519_public P e) (pr_x25519_public P r)"
  using assms by (simp add: derive_message_key_recipient_def derive_message_key_sender_def
      dh_lawD(3) [of P r e])

lemma hkdf_32_Ok: "hkdf_law P \<Longrightarrow> \<exists>k. hkdf_32 P salt input info = Ok k \<and> length k = 32"
  by (rule hkdf_lawE [of P 32 salt input info]) (auto simp: hkdf_32_def)

lemma derive_message_key_sender_Ok:
  assumes "hkdf_law P" and "\<not> list_all (\<lambda>b. b = 0) (pr_x25519_dh P e r)"
  shows "\<exists>k. derive_message_key_sender P e ep r = Ok k \<and> length k = 32"
  using assms hkdf_32_Ok
  by (simp add: derive_message_key_sender_def reject_all_zero_def derive_message_key_from_shared_def
      Let_def)

lemma derive_message_key_sender_length:
  "hkdf_law P \<Longrightarrow> derive_message_key_sender P e ep r = Ok k \<Longrightarrow> length k = 32"
  using hkdf_32_Ok [of P] unfolding derive_message_key_sender_def Let_def and_then_Inr_iff
    derive_message_key_from_shared_def by (metis sum.inject(2))

subsection \<open>The signed bytes determine what was signed\<close>

lemma u32_try_from_Some: "u32_try_from n = Some v \<Longrightarrow> unat v = n"
  by (auto simp: u32_try_from_def unat_of_nat take_bit_eq_mod split: if_splits)

lemma signature_input_Ok_iff:
  "signature_input s f i b = Ok x \<longleftrightarrow> length b < 2 ^ 32 \<and>
     x = SIGNATURE_DOMAIN @ [PROTOCOL_VERSION] @ [CRYPTO_SUITE_CLASSICAL_V1]
       @ pp_identity_public s @ pp_agreement_public s @ f @ i
       @ u32_to_be_bytes (word_of_nat (length b)) @ b"
  by (auto simp: signature_input_def u32_try_from_def)

lemma signature_input_inject:
  assumes "profile_ok P s" and "profile_ok P s'"
    and "length f = 32" and "length f' = 32" and "length i = 32" and "length i' = 32"
    and "signature_input s f i b = Ok x" and "signature_input s' f' i' b' = Ok x"
  shows "s = s' \<and> f = f' \<and> i = i' \<and> b = b'"
  using assms profile_ok_eq_iff [of P s s']
  by (auto simp: signature_input_Ok_iff profile_ok_def)

lemma sign_message_Ok:
  "sign_message P secrets sender f i b = Ok sig \<Longrightarrow>
     secrets_profile P secrets = sender \<and>
     (\<exists>x. signature_input sender f i b = Ok x \<and> sig = pr_ed_sign P (is_identity_secret secrets) x)"
  by (auto simp: sign_message_def and_then_Inr_iff split: if_splits)

lemma sign_message_runs:
  "secrets_profile P secrets = sender \<Longrightarrow> length b < 2 ^ 32 \<Longrightarrow> \<exists>sig. sign_message P secrets sender f i b = Ok sig"
  by (auto simp: sign_message_def signature_input_Ok_iff and_then_Inr_iff)

lemma sign_message_verifies:
  assumes "sign_law P" and "secrets_ok secrets"
    and "sign_message P secrets sender f i b = Ok sig"
  shows "verify_message_signature P sender f i b sig = Ok ()" and "length sig = 64"
proof -
  from sign_message_Ok [OF assms(3)] obtain x where x: "secrets_profile P secrets = sender"
    "signature_input sender f i b = Ok x" "sig = pr_ed_sign P (is_identity_secret secrets) x"
    by blast
  have "pp_identity_public sender = pr_ed_public P (is_identity_secret secrets)"
    using x(1) by (auto simp: secrets_profile_def)
  then show "verify_message_signature P sender f i b sig = Ok ()" and "length sig = 64"
    using assms(2) x sign_lawD [OF assms(1), of "is_identity_secret secrets"]
    by (simp_all add: verify_message_signature_def secrets_ok_def)
qed

lemma verify_message_signature_Ok_iff:
  "verify_message_signature P s f i b sig = Ok u \<longleftrightarrow>
     pr_ed_key_ok P (pp_identity_public s) \<and>
     (\<exists>x. signature_input s f i b = Ok x \<and> pr_ed_verify_strict P (pp_identity_public s) x sig)"
  by (auto simp: verify_message_signature_def and_then_Inr_iff split: if_splits)

subsection \<open>Domain separation\<close>

text \<open>
  Every use of a primitive has a label of its own, and none is a prefix of another, so no
  input of one use is an input of another.
\<close>

definition domain_labels :: "bytes list" where
  "domain_labels =
     [FINGERPRINT_DOMAIN, CONTACT_ROOT_SALT, CONTACT_ROOT_INFO, SUBKEY_SALT, STEGO_INFO,
      MESSAGE_KEY_SALT, MESSAGE_KEY_INFO, SIGNATURE_DOMAIN, OUTER_AAD_DOMAIN,
      IDENTITY_AAD_DOMAIN, ascii ''sealed/root-entropy/v1'']"

lemma of_char_byte_inject: "(of_char c :: byte) = of_char d \<longleftrightarrow> c = d"
proof
  assume eq: "(of_char c :: byte) = of_char d"
  have "unat (of_char a :: byte) = of_char a" for a :: char
  proof -
    have "unat (word_of_nat (of_char a) :: byte) = of_char a"
      by (simp add: unsigned_of_nat take_bit_eq_mod del: of_nat_of_char)
    then show ?thesis by (simp only: of_nat_of_char)
  qed
  with eq have "(of_char c :: nat) = of_char d" by metis
  then show "c = d" by simp
qed simp

lemma prefix_ascii: "prefix (ascii s) (ascii t) \<longleftrightarrow> prefix s t"
proof (induction s arbitrary: t)
  case (Cons c s)
  then show ?case by (cases t) (auto simp: ascii_def of_char_byte_inject)
qed (simp add: ascii_def)

lemma ascii_inject: "ascii s = ascii t \<longleftrightarrow> s = t"
  by (metis prefix_ascii prefix_order.eq_iff)

lemma domain_labels_distinct: "distinct domain_labels"
  by (simp add: domain_labels_def domain_defs ascii_inject)

lemma domain_labels_prefix_free_aux:
  "\<forall>p\<in>set domain_labels. \<forall>q\<in>set domain_labels. prefix p q \<longrightarrow> p = q"
  by (simp add: domain_labels_def domain_defs prefix_ascii)

lemma labelled_inputs_differ:
  assumes "p \<in> set domain_labels" and "q \<in> set domain_labels" and "p @ x = q @ y"
  shows "p = q \<and> x = y"
proof -
  from assms(3) have "prefix p q \<or> prefix q p" by (metis prefixI prefix_same_cases)
  with assms(1,2) have "p = q" using domain_labels_prefix_free_aux by metis
  with assms(3) show ?thesis by simp
qed

section \<open>Properties of the derivations\<close>

text \<open>C26: Two parties derive the same contact root from their own secrets and the other's
  profile.\<close>

theorem contact_root_symmetric:
  assumes "dh_law P" and "secrets_ok a" and "secrets_ok b"
  shows "derive_contact_root P a (secrets_profile P a) (secrets_profile P b) =
    derive_contact_root P b (secrets_profile P b) (secrets_profile P a)"
  using assms by (rule derive_contact_root_symmetric)

text \<open>Witness of C26: two parties with constant secrets.\<close>

theorem contact_root_symmetric_witness:
  "derive_contact_root sample_primitives
     (secrets_from_bytes (replicate 32 1) (replicate 32 2))
     (secrets_profile sample_primitives (secrets_from_bytes (replicate 32 1) (replicate 32 2)))
     (secrets_profile sample_primitives (secrets_from_bytes (replicate 32 3) (replicate 32 4))) =
   derive_contact_root sample_primitives
     (secrets_from_bytes (replicate 32 3) (replicate 32 4))
     (secrets_profile sample_primitives (secrets_from_bytes (replicate 32 3) (replicate 32 4)))
     (secrets_profile sample_primitives (secrets_from_bytes (replicate 32 1) (replicate 32 2)))"
  by (rule contact_root_symmetric [OF sample_laws(3)]) (simp_all add: secrets_ok_def secrets_from_bytes_def)

text \<open>C25: The bytes a signature covers are the same only for the same sender, recipient,
  message identifier and body: no field can take bytes from another.\<close>

theorem signature_input_binds:
  assumes "profile_ok P s" and "profile_ok P s'"
    and "length f = 32" and "length f' = 32" and "length i = 32" and "length i' = 32"
    and "length b < 2 ^ 32" and "length b' < 2 ^ 32"
  shows "signature_input s f i b = signature_input s' f' i' b' \<longleftrightarrow>
    s = s' \<and> f = f' \<and> i = i' \<and> b = b'"
proof
  assume eq: "signature_input s f i b = signature_input s' f' i' b'"
  obtain x where x: "signature_input s f i b = Ok x" using assms(7) by (auto simp: signature_input_Ok_iff)
  show "s = s' \<and> f = f' \<and> i = i' \<and> b = b'"
    using assms(1-6) x eq [symmetric, unfolded x] by (rule signature_input_inject)
qed simp

text \<open>Witness of C25: the last byte of the identifier is not the first of the body.\<close>

theorem signature_input_binds_witness:
  "signature_input (profile_new sample_primitives (replicate 32 1) (replicate 32 2))
      (replicate 32 3) (replicate 32 4) [4, 5]
    \<noteq> signature_input (profile_new sample_primitives (replicate 32 1) (replicate 32 2))
      (replicate 32 3) (replicate 32 4) [5]"
proof -
  have ok: "profile_ok sample_primitives (profile_new sample_primitives (replicate 32 1) (replicate 32 2))"
    by (simp add: profile_new_ok sample_laws(1))
  from signature_input_binds [OF ok ok, of "replicate 32 3" "replicate 32 3" "replicate 32 4"
      "replicate 32 4" "[4, 5]" "[5]"]
  show ?thesis by simp
qed

text \<open>The labels of the program's uses of its primitives are prefix-free, so inputs that
  begin with them coincide only for the same use and the same data.\<close>

theorem domains_separate:
  assumes "p \<in> set domain_labels" and "q \<in> set domain_labels" and "p @ x = q @ y"
  shows "p = q \<and> x = y"
  using assms by (rule labelled_inputs_differ)

text \<open>For instance, associated data of the outer layer is never that of the identity file.\<close>

theorem domains_separate_example: "outer_aad (replicate 32 1) (replicate 24 2) \<noteq> IDENTITY_AAD_DOMAIN"
proof
  assume "outer_aad (replicate 32 1) (replicate 24 2) = IDENTITY_AAD_DOMAIN"
  then have "OUTER_AAD_DOMAIN @ replicate 32 1 @ replicate 24 2 = IDENTITY_AAD_DOMAIN @ []"
    by (simp add: outer_aad_def)
  from domains_separate [OF _ _ this] show False
    by (simp add: domain_labels_def)
qed

end
