(* ===== verification/Contact.thy ===== *)
theory Contact
  imports Identity
begin

text \<open>\<open>src/src/contact.rs\<close>: pinned contacts and the names they may have.\<close>

record contact =
  ct_alias :: bytes
  ct_profile :: public_profile

abbreviation underscore :: byte where "underscore \<equiv> 0x5F"

definition validate_alias :: "bytes \<Rightarrow> bool" where
  "validate_alias alias \<longleftrightarrow>
     alias \<noteq> [] \<and> length alias \<le> 64 \<and>
     list_all (\<lambda>b. is_ascii_alphanumeric b \<or> b = hyphen \<or> b = underscore) alias"

text \<open>A valid name is free of the bytes that mean something in a path.\<close>

lemma alias_byte_safe_aux:
  "is_ascii_alphanumeric b \<or> b = hyphen \<or> b = underscore \<Longrightarrow>
     b \<noteq> slash \<and> b \<noteq> dot \<and> b \<noteq> 0 \<and> b < 0x80"
  by (auto simp: byte_class_defs word_le_nat_alt word_less_nat_alt)

lemma validate_alias_safe:
  assumes "validate_alias alias"
  shows "alias \<noteq> []" and "slash \<notin> set alias" and "dot \<notin> set alias" and "all_ascii alias"
  using assms alias_byte_safe_aux
  by (auto simp: validate_alias_def list_all_iff all_ascii_def)

end
