(* ===== verification/Message.thy ===== *)
theory Message
  imports Crypto Contact
begin

text \<open>
  \<open>src/src/message.rs\<close>: sealing a body into a padded blob, opening a blob, the binary layout
  of the plaintext between the two, and what a letter's sender is to the reader's contacts.
\<close>

datatype sender_trust = Pinned bytes | Mismatch bytes | Unknown

record opened_letter =
  ol_body :: bytes
  ol_message_id :: bytes
  ol_sender :: public_profile
  ol_sender_trust :: sender_trust

record parsed_message =
  pm_sender :: public_profile
  pm_recipient_fingerprint :: bytes
  pm_message_id :: bytes
  pm_body :: bytes
  pm_signature :: bytes

section \<open>The internal plaintext\<close>

definition serialize_internal ::
  "primitives \<Rightarrow> identity_secrets \<Rightarrow> public_profile \<Rightarrow> public_profile \<Rightarrow> bytes \<Rightarrow> bytes \<Rightarrow> bytes
     \<Rightarrow> bytes result" where
  "serialize_internal P sender_secrets sender_profile recipient message_id body padding =
     (if length body > MAX_BODY_LEN then
        Err (InvalidInput ''message body exceeds the 1 MiB limit'')
      else
        and_then (ok_or (InvalidInput ''message body is too large'')
                    (u32_try_from (length body))) (\<lambda>body_len.
        and_then (sign_message P sender_secrets sender_profile (pp_fingerprint recipient)
                    message_id body) (\<lambda>signature.
        and_then (ok_or (InvalidInput ''internal message length overflow'')
                    (Option.bind (checked_add INTERNAL_FIXED_LEN (length body))
                       (\<lambda>n. checked_add n (length padding)))) (\<lambda>capacity.
        Ok ([PROTOCOL_VERSION] @ [CRYPTO_SUITE_CLASSICAL_V1]
            @ pp_identity_public sender_profile @ pp_agreement_public sender_profile
            @ pp_fingerprint recipient @ message_id @ u32_to_be_bytes body_len
            @ body @ signature @ padding)))))"

text \<open>\<open>usize::try_from\<close> of a \<open>u32\<close>, which fits.\<close>

definition usize_try_from_u32 :: "32 word \<Rightarrow> nat option" where
  "usize_try_from_u32 v = (if unat v \<le> usize_max then Some (unat v) else None)"

definition parse_fields :: "primitives \<Rightarrow> (reader, parsed_message) st" where
  "parse_fields P =
     bind_st reader_byte (\<lambda>version.
     if version \<noteq> PROTOCOL_VERSION then throw (InvalidInput ''unsupported protocol version'') else
     bind_st reader_byte (\<lambda>suite.
     if suite \<noteq> CRYPTO_SUITE_CLASSICAL_V1 then
       throw (InvalidInput ''unsupported cryptographic suite'') else
     bind_st (reader_array 32) (\<lambda>identity_public.
     bind_st (reader_array 32) (\<lambda>agreement_public.
     let sender = profile_new P identity_public agreement_public in
     bind_st (reader_array 32) (\<lambda>recipient_fingerprint.
     bind_st (reader_array 32) (\<lambda>message_id.
     bind_st reader_u32_be (\<lambda>claimed.
     bind_st (lift_result (ok_or (InvalidInput ''invalid body length'')
                             (usize_try_from_u32 claimed))) (\<lambda>body_len.
     bind_st (get_state reader_remaining) (\<lambda>remaining.
     if body_len > MAX_BODY_LEN \<or> body_len > saturating_sub remaining SIGNATURE_LEN then
       throw (InvalidInput ''invalid body length'') else
     bind_st (reader_take body_len) (\<lambda>body.
     bind_st (reader_array SIGNATURE_LEN) (\<lambda>signature.
     bind_st (get_state reader_remaining) (\<lambda>rest.
     bind_st (reader_take rest) (\<lambda>authenticated_padding.
     ret \<lparr>pm_sender = sender, pm_recipient_fingerprint = recipient_fingerprint,
          pm_message_id = message_id, pm_body = body, pm_signature = signature\<rparr>)))))))))))))"

definition parse_internal :: "primitives \<Rightarrow> bytes \<Rightarrow> parsed_message result" where
  "parse_internal P plaintext =
     (if length plaintext < INTERNAL_FIXED_LEN then
        Err (InvalidInput ''internal message is truncated'')
      else fst (parse_fields P (reader_new plaintext)))"

section \<open>Sealing\<close>

text \<open>\<open>XChaCha20Poly1305::new_from_slice\<close>: a key of any other length is refused.\<close>

definition cipher_new_from_slice :: "error \<Rightarrow> bytes \<Rightarrow> bytes result" where
  "cipher_new_from_slice e key = (if length key = MESSAGE_KEY_LEN then Ok key else Err e)"

definition random_bytes :: "nat \<Rightarrow> bytes io" where
  "random_bytes n = fill_random n"

definition seal ::
  "primitives \<Rightarrow> identity_secrets \<Rightarrow> public_profile \<Rightarrow> public_profile \<Rightarrow> bytes \<Rightarrow> bytes io" where
  "seal P sender_secrets sender_profile recipient body =
     (if length body > MAX_BODY_LEN then
        throw (InvalidInput ''message body exceeds the 1 MiB limit'')
      else
        bind_st (random_array 32) (\<lambda>ephemeral_secret.
        let ephemeral_public = pr_x25519_public P ephemeral_secret in
        bind_st (random_array NONCE_LEN) (\<lambda>nonce.
        bind_st (random_array 32) (\<lambda>message_id.
        bind_st (lift_result (ok_or
                   (InvalidInput ''message cannot fit a supported padding bucket'')
                   (padded_blob_len (length body)))) (\<lambda>blob_len.
        let plaintext_len = blob_len - OUTER_OVERHEAD;
            padding_len = plaintext_len - INTERNAL_FIXED_LEN - length body in
        bind_st (random_bytes padding_len) (\<lambda>padding.
        bind_st (lift_result (serialize_internal P sender_secrets sender_profile recipient
                   message_id body padding)) (\<lambda>internal.
        if length internal \<noteq> plaintext_len then
          throw (InvalidInput ''internal padding calculation failed'') else
        bind_st (lift_result (derive_message_key_sender P ephemeral_secret ephemeral_public
                   (pp_agreement_public recipient))) (\<lambda>message_key.
        bind_st (lift_result (cipher_new_from_slice Authentication message_key)) (\<lambda>cipher.
        let aad = outer_aad ephemeral_public nonce in
        bind_st (lift_result (ok_or Authentication
                   (pr_aead_encrypt P cipher nonce aad internal))) (\<lambda>ciphertext.
        let blob = ephemeral_public @ nonce @ ciphertext in
        if length blob \<noteq> blob_len then
          throw (InvalidInput ''outer padding calculation failed'')
        else ret blob))))))))))"

section \<open>Opening\<close>

definition classify_sender :: "contact list \<Rightarrow> public_profile \<Rightarrow> sender_trust" where
  "classify_sender contacts sender =
     (case find (\<lambda>c. ct_profile c = sender) contacts of
        Some c \<Rightarrow> Pinned (ct_alias c)
      | None \<Rightarrow>
          (case find (\<lambda>c. pp_identity_public (ct_profile c) = pp_identity_public sender \<or>
                          pp_agreement_public (ct_profile c) = pp_agreement_public sender)
                  contacts of
             Some c \<Rightarrow> Mismatch (ct_alias c)
           | None \<Rightarrow> Unknown))"

definition open_letter ::
  "primitives \<Rightarrow> identity_secrets \<Rightarrow> public_profile \<Rightarrow> contact list \<Rightarrow> bytes
     \<Rightarrow> opened_letter result" where
  "open_letter P recipient_secrets recipient_profile contacts blob =
     (if \<not> valid_blob_len (length blob) \<or> length blob < OUTER_OVERHEAD then Err CannotOpen
      else if secrets_profile P recipient_secrets \<noteq> recipient_profile then Err CannotOpen
      else
        let ephemeral_public = take EPHEMERAL_PUBLIC_LEN blob;
            nonce = take NONCE_LEN (drop EPHEMERAL_PUBLIC_LEN blob);
            ciphertext = drop (EPHEMERAL_PUBLIC_LEN + NONCE_LEN) blob in
        and_then (map_err (\<lambda>_. CannotOpen)
                   (derive_message_key_recipient P (is_agreement_secret recipient_secrets)
                      ephemeral_public (pp_agreement_public recipient_profile))) (\<lambda>message_key.
        and_then (cipher_new_from_slice CannotOpen message_key) (\<lambda>cipher.
        let aad = outer_aad ephemeral_public nonce in
        and_then (ok_or CannotOpen (pr_aead_decrypt P cipher nonce aad ciphertext)) (\<lambda>plaintext.
        and_then (map_err (\<lambda>_. CannotOpen) (parse_internal P plaintext)) (\<lambda>parsed.
        if pm_recipient_fingerprint parsed \<noteq> pp_fingerprint recipient_profile then Err CannotOpen
        else
          and_then (map_err (\<lambda>_. CannotOpen)
                     (verify_message_signature P (pm_sender parsed)
                        (pm_recipient_fingerprint parsed) (pm_message_id parsed)
                        (pm_body parsed) (pm_signature parsed))) (\<lambda>_.
          Ok \<lparr>ol_body = pm_body parsed, ol_message_id = pm_message_id parsed,
              ol_sender = pm_sender parsed,
              ol_sender_trust = classify_sender contacts (pm_sender parsed)\<rparr>))))))"

section \<open>The layout and its parser\<close>

text \<open>
  The plaintext as a table of offsets, and the parser as a function of that table: each field
  is the stretch of bytes at its place, and the body's length decides where the signature is.
\<close>

definition internal_layout ::
  "bytes \<Rightarrow> bytes \<Rightarrow> bytes \<Rightarrow> bytes \<Rightarrow> bytes \<Rightarrow> bytes \<Rightarrow> bytes \<Rightarrow> bytes" where
  "internal_layout identity agreement recipient_fp message_id body signature padding =
     [PROTOCOL_VERSION] @ [CRYPTO_SUITE_CLASSICAL_V1] @ identity @ agreement @ recipient_fp
     @ message_id @ u32_to_be_bytes (word_of_nat (length body)) @ body @ signature @ padding"

definition claimed_len :: "bytes \<Rightarrow> nat" where
  "claimed_len pt = unat (u32_from_be_bytes (take 4 (drop 130 pt)))"

definition parse_table :: "primitives \<Rightarrow> bytes \<Rightarrow> parsed_message result" where
  "parse_table P pt =
     (if length pt < 198 then Err (InvalidInput ''internal message is truncated'')
      else if pt ! 0 \<noteq> 1 then Err (InvalidInput ''unsupported protocol version'')
      else if pt ! 1 \<noteq> 1 then Err (InvalidInput ''unsupported cryptographic suite'')
      else if claimed_len pt > MAX_BODY_LEN \<or> claimed_len pt > length pt - 198 then
        Err (InvalidInput ''invalid body length'')
      else Ok \<lparr>
        pm_sender = profile_new P (take 32 (drop 2 pt)) (take 32 (drop 34 pt)),
        pm_recipient_fingerprint = take 32 (drop 66 pt),
        pm_message_id = take 32 (drop 98 pt),
        pm_body = take (claimed_len pt) (drop 134 pt),
        pm_signature = take 64 (drop (134 + claimed_len pt) pt)\<rparr>)"

lemma usize_try_from_u32_Some [simp]: "usize_try_from_u32 v = Some (unat v)"
proof -
  have "unat v < 2 ^ 32" using unsigned_less [of v] by simp
  then show ?thesis by (simp add: usize_try_from_u32_def usize_max_def)
qed

lemma parse_internal_table:
  assumes "length pt \<le> usize_max"
  shows "parse_internal P pt = parse_table P pt"
proof (cases "length pt < 198")
  case True
  then show ?thesis by (simp add: parse_internal_def parse_table_def protocol_consts)
next
  case False
  have ok: "reader_ok (reader_new pt)" using assms by (rule reader_new_ok)
  show ?thesis
  proof (cases "claimed_len pt > MAX_BODY_LEN \<or> claimed_len pt > length pt - 198")
    case True
    then show ?thesis
      using ok False
      by (simp add: parse_internal_def parse_table_def parse_fields_def protocol_consts reader_Ok
          advance_ok reader_remaining_unread claimed_len_def Let_def)
  next
    case short: False
    define n where "n = unat (u32_from_be_bytes (take 4 (drop 130 pt)))"
    from short False have n: "n \<le> 1048576" "n \<le> length pt - 134" "64 \<le> length pt - (134 + n)"
        "n \<le> length pt - 198" "\<not> length pt - 198 < n"
      by (auto simp: claimed_len_def n_def MAX_BODY_LEN_def)
    show ?thesis
      using ok False n
      by (simp add: parse_internal_def parse_table_def parse_fields_def protocol_consts reader_Ok
          advance_ok reader_remaining_unread claimed_len_def Let_def numeral_2_eq_2
          add.commute [of n 134] flip: n_def)
  qed
qed

text \<open>What parses is exactly what has the layout, and the parse is the fields laid out.\<close>

definition fields_ok :: "parsed_message \<Rightarrow> bool" where
  "fields_ok pm \<longleftrightarrow> length (pp_identity_public (pm_sender pm)) = 32 \<and>
     length (pp_agreement_public (pm_sender pm)) = 32 \<and>
     length (pm_recipient_fingerprint pm) = 32 \<and> length (pm_message_id pm) = 32 \<and>
     length (pm_body pm) \<le> MAX_BODY_LEN \<and> length (pm_signature pm) = 64"

definition layout_of :: "parsed_message \<Rightarrow> bytes \<Rightarrow> bytes" where
  "layout_of pm padding =
     internal_layout (pp_identity_public (pm_sender pm)) (pp_agreement_public (pm_sender pm))
       (pm_recipient_fingerprint pm) (pm_message_id pm) (pm_body pm) (pm_signature pm) padding"

lemma claimed_len_layout:
  assumes "fields_ok pm"
  shows "claimed_len (layout_of pm padding) = length (pm_body pm)"
proof -
  have "take 4 (drop 130 (layout_of pm padding)) = u32_to_be_bytes (word_of_nat (length (pm_body pm)))"
    using assms by (simp add: layout_of_def internal_layout_def fields_ok_def)
  moreover have "length (pm_body pm) < 2 ^ 32"
    using assms by (simp add: fields_ok_def MAX_BODY_LEN_def)
  ultimately show ?thesis by (simp add: claimed_len_def unsigned_of_nat take_bit_eq_mod)
qed

lemma parse_table_layout:
  assumes "fields_ok pm"
    and "pm_sender pm = profile_new P (pp_identity_public (pm_sender pm))
      (pp_agreement_public (pm_sender pm))"
  shows "parse_table P (layout_of pm padding) = Ok pm"
proof -
  have eq: "layout_of pm padding = PROTOCOL_VERSION # CRYPTO_SUITE_CLASSICAL_V1 #
      pp_identity_public (pm_sender pm) @ pp_agreement_public (pm_sender pm)
      @ pm_recipient_fingerprint pm @ pm_message_id pm
      @ u32_to_be_bytes (word_of_nat (length (pm_body pm))) @ pm_body pm @ pm_signature pm @ padding"
    by (simp add: layout_of_def internal_layout_def)
  have len: "length (layout_of pm padding) = 198 + length (pm_body pm) + length padding"
    using assms(1) by (simp add: eq fields_ok_def)
  define front where "front = PROTOCOL_VERSION # CRYPTO_SUITE_CLASSICAL_V1 #
      pp_identity_public (pm_sender pm) @ pp_agreement_public (pm_sender pm)
      @ pm_recipient_fingerprint pm @ pm_message_id pm
      @ u32_to_be_bytes (word_of_nat (length (pm_body pm))) @ pm_body pm"
  have front: "layout_of pm padding = front @ pm_signature pm @ padding"
    "length front = 134 + length (pm_body pm)"
    using assms(1) by (simp_all add: eq front_def fields_ok_def)
  have sig: "take 64 (drop (134 + length (pm_body pm)) (layout_of pm padding)) = pm_signature pm"
    using assms(1) by (simp add: front(1) front(2)[symmetric] fields_ok_def)
  show ?thesis
    using assms(1) assms(2)[symmetric] len claimed_len_layout [OF assms(1), of padding] sig
    unfolding parse_table_def
    by (simp add: fields_ok_def) (simp add: eq PROTOCOL_VERSION_def CRYPTO_SUITE_CLASSICAL_V1_def)
qed

lemma drop_split: "take n (drop k xs) @ drop (k + n) xs = drop k xs"
  by (metis add.commute append_take_drop_id drop_drop)

lemma parse_table_Ok:
  assumes "parse_table P pt = Ok pm"
  shows "fields_ok pm \<and> pt = layout_of pm (drop (198 + length (pm_body pm)) pt) \<and>
    pm_sender pm = profile_new P (pp_identity_public (pm_sender pm))
      (pp_agreement_public (pm_sender pm))"
proof -
  define n where "n = claimed_len pt"
  from assms have len: "198 \<le> length pt" and v: "pt ! 0 = 1" "pt ! 1 = 1"
    and n: "n \<le> MAX_BODY_LEN" "n \<le> length pt - 198"
    and pm: "pm = \<lparr>
        pm_sender = profile_new P (take 32 (drop 2 pt)) (take 32 (drop 34 pt)),
        pm_recipient_fingerprint = take 32 (drop 66 pt),
        pm_message_id = take 32 (drop 98 pt),
        pm_body = take n (drop 134 pt),
        pm_signature = take 64 (drop (134 + n) pt)\<rparr>"
    by (auto simp: parse_table_def n_def split: if_splits)
  have body: "length (pm_body pm) = n" using len n by (simp add: pm)
  have "length (take 4 (drop 130 pt)) = 4" using len by simp
  then have l4: "u32_to_be_bytes (word_of_nat n) = take 4 (drop 130 pt)"
    by (simp add: n_def claimed_len_def u32_to_from_be_bytes)
  have "take 2 pt = [1, 1]"
    using v len by (intro nth_equalityI) (auto simp: less_Suc_eq numeral_2_eq_2)
  then have "pt = [1, 1] @ drop 2 pt" by (metis append_take_drop_id)
  moreover have "drop 2 pt = take 32 (drop 2 pt) @ take 32 (drop 34 pt) @ take 32 (drop 66 pt)
      @ take 32 (drop 98 pt) @ take 4 (drop 130 pt) @ take n (drop 134 pt)
      @ take 64 (drop (134 + n) pt) @ drop (198 + n) pt"
    using drop_split [of 32 2 pt] drop_split [of 32 34 pt] drop_split [of 32 66 pt]
      drop_split [of 32 98 pt] drop_split [of 4 130 pt] drop_split [of n 134 pt]
      drop_split [of 64 "134 + n" pt]
    by (simp add: algebra_simps)
  ultimately have "pt = layout_of pm (drop (198 + length (pm_body pm)) pt)"
    using body l4 by (simp add: layout_of_def internal_layout_def pm protocol_consts)
  moreover have "fields_ok pm" using len n by (simp add: pm fields_ok_def)
  ultimately show ?thesis by (simp add: pm)
qed

lemma parse_internal_Ok_iff:
  assumes "length pt \<le> usize_max"
  shows "parse_internal P pt = Ok pm \<longleftrightarrow>
    fields_ok pm \<and> (\<exists>padding. pt = layout_of pm padding) \<and>
    pm_sender pm = profile_new P (pp_identity_public (pm_sender pm))
      (pp_agreement_public (pm_sender pm))"
  using parse_table_layout [of pm P] parse_table_Ok [of P pt pm]
  by (auto simp: parse_internal_table [OF assms])

section \<open>What sealing does\<close>

lemma serialize_internal_Ok:
  assumes "serialize_internal P ss sp rp mid body padding = Ok x"
  obtains sig where "length body \<le> MAX_BODY_LEN"
    and "sign_message P ss sp (pp_fingerprint rp) mid body = Ok sig"
    and "x = internal_layout (pp_identity_public sp) (pp_agreement_public sp) (pp_fingerprint rp)
      mid body sig padding"
  using assms
  by (auto simp: serialize_internal_def and_then_Inr_iff internal_layout_def u32_try_from_def
      split: if_splits)

lemma serialize_internal_runs:
  assumes "length body \<le> MAX_BODY_LEN" and "secrets_profile P ss = sp"
    and "length padding \<le> MAX_BLOB_LEN"
  shows "\<exists>x. serialize_internal P ss sp rp mid body padding = Ok x"
proof -
  have l: "length body < 2 ^ 32" and u: "198 + (length body + length padding) \<le> usize_max"
    using assms by (simp_all add: protocol_consts usize_max_def)
  from sign_message_runs [OF assms(2) l] obtain sig where
    "sign_message P ss sp (pp_fingerprint rp) mid body = Ok sig" by blast
  then show ?thesis using assms(1) l u
    by (simp add: serialize_internal_def u32_try_from_def checked_add_def protocol_consts)
qed

lemma length_internal_layout:
  "length i = 32 \<Longrightarrow> length a = 32 \<Longrightarrow> length f = 32 \<Longrightarrow> length m = 32 \<Longrightarrow> length s = 64 \<Longrightarrow>
     length (internal_layout i a f m b s p) = 198 + length b + length p"
  by (simp add: internal_layout_def)

text \<open>Everything a successful run of \<open>seal\<close> has gone through.\<close>

lemma seal_OkE:
  assumes "seal P ss sp rp body w = (Ok blob, w')"
  obtains e nonce mid padding internal key ct where
    "length body \<le> MAX_BODY_LEN" "padded_blob_len (length body) = Some (length blob)"
    "length e = 32" "length nonce = 24" "length mid = 32"
    "serialize_internal P ss sp rp mid body padding = Ok internal"
    "length internal = length blob - OUTER_OVERHEAD"
    "derive_message_key_sender P e (pr_x25519_public P e) (pp_agreement_public rp) = Ok key"
    "length key = 32"
    "pr_aead_encrypt P key nonce (outer_aad (pr_x25519_public P e) nonce) internal = Some ct"
    "blob = pr_x25519_public P e @ nonce @ ct"
  using assms
  by (auto simp: seal_def bind_st_Ok_iff Let_def cipher_new_from_slice_def protocol_consts
      dest!: random_array_length split: if_splits)

lemma seal_length:
  "seal P ss sp rp body w = (Ok blob, w') \<Longrightarrow> padded_blob_len (length body) = Some (length blob)"
  by (erule seal_OkE) simp

lemma keeps_seal [simp]: "keeps looks (seal P ss sp rp body)"
  unfolding seal_def Let_def random_bytes_def
  by (intro looking.keeps_rules looking.keeps_throw looking.keeps_lift looking.keeps_ret
      keeps_random_array keeps_fill_random)

text \<open>
  With enough randomness, a sender profile that belongs to the secrets and a recipient key
  that does not make the shared secret zero, sealing a body of at most 1 MiB succeeds.
\<close>

lemma seal_runs:
  assumes laws: "hash_law P" "hkdf_law P" "dh_law P" "sign_law P" "aead_law P"
    and ss: "secrets_ok ss" and rp: "profile_ok P rp" and body: "length body \<le> MAX_BODY_LEN"
    and rand: "random_available 4 w"
    and dh: "\<not> list_all (\<lambda>b. b = 0) (pr_x25519_dh P (drawn 0 32 w) (pp_agreement_public rp))"
  shows "\<exists>blob. seal P ss (secrets_profile P ss) rp body w = (Ok blob, after_random 4 w)"
proof -
  define e where "e = drawn 0 32 w"
  define ep where "ep = pr_x25519_public P e"
  define nonce where "nonce = drawn 1 24 w"
  define mid where "mid = drawn 2 32 w"
  from padded_blob_len_ex [OF body] obtain k where k: "k \<le> 12"
    "padded_blob_len (length body) = Some (512 * 2 ^ k)" "required_len (length body) \<le> 512 * 2 ^ k"
    by blast
  define bl where "bl = (512::nat) * 2 ^ k"
  have "(512::nat) * 2 ^ k \<le> 512 * 2 ^ 12" using k(1) by (intro mult_le_mono power_increasing) simp_all
  then have bl: "padded_blob_len (length body) = Some bl" "270 + length body \<le> bl" "bl \<le> 2097152"
    using k by (simp_all add: bl_def required_len_def protocol_consts)
  define padding where "padding = drawn 3 (bl - 72 - 198 - length body) w"
  have "length padding \<le> MAX_BLOB_LEN" using bl by (simp add: padding_def protocol_consts)
  from serialize_internal_runs [OF body refl this] obtain internal where
    int: "serialize_internal P ss (secrets_profile P ss) rp mid body padding = Ok internal" by blast
  from serialize_internal_Ok [OF int] obtain sig where
    sig: "sign_message P ss (secrets_profile P ss) (pp_fingerprint rp) mid body = Ok sig"
    and lay: "internal = internal_layout (pp_identity_public (secrets_profile P ss))
      (pp_agreement_public (secrets_profile P ss)) (pp_fingerprint rp) mid body sig padding"
    by blast
  have spok: "profile_ok P (secrets_profile P ss)"
    using laws ss by (intro secrets_profile_ok)
  have "length internal = 198 + length body + length padding"
    unfolding lay using spok rp sign_message_verifies(2) [OF laws(4) ss sig]
    by (intro length_internal_layout) (simp_all add: profile_ok_def mid_def)
  then have li: "length internal = bl - 72" using bl by (simp add: padding_def)
  from derive_message_key_sender_Ok [OF laws(2) dh] obtain key where
    key: "derive_message_key_sender P e ep (pp_agreement_public rp) = Ok key" "length key = 32"
    unfolding e_def by blast
  have "length nonce = 24" "length internal \<le> aead_max_len"
    using li bl by (simp_all add: nonce_def aead_max_len_def)
  from aead_lawE [OF laws(5) key(2) this] obtain ct where
    ct: "pr_aead_encrypt P key nonce (outer_aad ep nonce) internal = Some ct"
      "length ct = length internal + 16" by blast
  have "length ep = 32" using laws(3) by (simp add: ep_def e_def dh_lawD)
  then have "length (ep @ nonce @ ct) = bl" using ct li bl by (simp add: nonce_def)
  moreover have "random_array 32 w = (Ok e, after_random 1 w)"
    "random_array 24 (after_random 1 w) = (Ok nonce, after_random 2 w)"
    "random_array 32 (after_random 2 w) = (Ok mid, after_random 3 w)"
    "random_array (bl - 72 - 198 - length body) (after_random 3 w) = (Ok padding, after_random 4 w)"
    using random_array_drawn [OF rand, of 0] random_array_drawn [OF rand, of 1]
      random_array_drawn [OF rand, of 2] random_array_drawn [OF rand, of 3]
    by (simp_all add: e_def nonce_def mid_def padding_def numeral_2_eq_2 numeral_3_eq_3
        numeral_eq_Suc)
  ultimately have "seal P ss (secrets_profile P ss) rp body w = (Ok (ep @ nonce @ ct), after_random 4 w)"
    using body bl(1) int li key ct(1)
    by (simp add: seal_def cipher_new_from_slice_def random_bytes_def fill_random_eq Let_def
        protocol_consts flip: ep_def)
  then show ?thesis by blast
qed

section \<open>What opening does\<close>

text \<open>The parts of a blob, and the letter a parsed plaintext becomes.\<close>

definition blob_ephemeral :: "bytes \<Rightarrow> bytes" where
  "blob_ephemeral blob = take 32 blob"

definition blob_nonce :: "bytes \<Rightarrow> bytes" where
  "blob_nonce blob = take 24 (drop 32 blob)"

definition blob_ciphertext :: "bytes \<Rightarrow> bytes" where
  "blob_ciphertext blob = drop 56 blob"

definition letter_of :: "contact list \<Rightarrow> parsed_message \<Rightarrow> opened_letter" where
  "letter_of contacts pm =
     \<lparr>ol_body = pm_body pm, ol_message_id = pm_message_id pm, ol_sender = pm_sender pm,
      ol_sender_trust = classify_sender contacts (pm_sender pm)\<rparr>"

lemmas blob_parts = blob_ephemeral_def blob_nonce_def blob_ciphertext_def

lemma blob_parts_join:
  assumes "length ep = 32" and "length nonce = 24"
  shows "blob_ephemeral (ep @ nonce @ ct) = ep" "blob_nonce (ep @ nonce @ ct) = nonce"
    "blob_ciphertext (ep @ nonce @ ct) = ct"
  using assms by (simp_all add: blob_parts)

lemma open_letter_OkE:
  assumes "open_letter P rs rp contacts blob = Ok letter"
  obtains key pt pm where
    "valid_blob_len (length blob)" "secrets_profile P rs = rp"
    "derive_message_key_recipient P (is_agreement_secret rs) (blob_ephemeral blob)
       (pp_agreement_public rp) = Ok key" "length key = 32"
    "pr_aead_decrypt P key (blob_nonce blob)
       (outer_aad (blob_ephemeral blob) (blob_nonce blob)) (blob_ciphertext blob) = Some pt"
    "parse_internal P pt = Ok pm" "pm_recipient_fingerprint pm = pp_fingerprint rp"
    "verify_message_signature P (pm_sender pm) (pm_recipient_fingerprint pm)
       (pm_message_id pm) (pm_body pm) (pm_signature pm) = Ok ()"
    "letter = letter_of contacts pm"
  using assms
  by (auto simp: open_letter_def and_then_Inr_iff cipher_new_from_slice_def Let_def
      letter_of_def blob_parts protocol_consts split: if_splits)

lemma open_letter_OkI:
  assumes "valid_blob_len (length blob)" "secrets_profile P rs = rp"
    and "derive_message_key_recipient P (is_agreement_secret rs) (blob_ephemeral blob)
       (pp_agreement_public rp) = Ok key" "length key = 32"
    and "pr_aead_decrypt P key (blob_nonce blob)
       (outer_aad (blob_ephemeral blob) (blob_nonce blob)) (blob_ciphertext blob) = Some pt"
    and "parse_internal P pt = Ok pm" "pm_recipient_fingerprint pm = pp_fingerprint rp"
    and "verify_message_signature P (pm_sender pm) (pm_recipient_fingerprint pm)
       (pm_message_id pm) (pm_body pm) (pm_signature pm) = Ok ()"
  shows "open_letter P rs rp contacts blob = Ok (letter_of contacts pm)"
  using assms
  by (simp add: open_letter_def cipher_new_from_slice_def letter_of_def blob_parts
      protocol_consts valid_blob_len_def)

lemma open_letter_error: "open_letter P rs rp contacts blob = Err e \<Longrightarrow> e = CannotOpen"
  by (auto simp: open_letter_def and_then_Inl_iff cipher_new_from_slice_def ok_or_def Let_def
      split: if_splits option.splits dest: map_err_const_Inl)

text \<open>
  What a blob for a reader is, said with encryption instead of decryption: the associated data,
  the layout and the signed bytes are written out.
\<close>

definition letter_in :: "primitives \<Rightarrow> identity_secrets \<Rightarrow> opened_letter \<Rightarrow> bytes \<Rightarrow> bool" where
  "letter_in P rs letter blob \<longleftrightarrow>
     (let s = ol_sender letter; me = secrets_profile P rs; body = ol_body letter;
          mid = ol_message_id letter in
      profile_ok P s \<and> length mid = 32 \<and> length body \<le> MAX_BODY_LEN \<and>
      (\<exists>e nonce key sig padding ct. length e = 32 \<and> length nonce = 24 \<and> length key = 32 \<and>
         length sig = 64 \<and> length blob = 270 + length body + length padding \<and>
         blob = e @ nonce @ ct \<and>
         (\<exists>b\<in>set (pr_x25519_dh P (is_agreement_secret rs) e). b \<noteq> 0) \<and>
         pr_hkdf P (Some MESSAGE_KEY_SALT) (pr_x25519_dh P (is_agreement_secret rs) e)
           (MESSAGE_KEY_INFO @ e @ pp_agreement_public me) 32 = Some key \<and>
         pr_aead_encrypt P key nonce (OUTER_AAD_DOMAIN @ e @ nonce)
           ([1, 1] @ pp_identity_public s @ pp_agreement_public s @ pp_fingerprint me @ mid
            @ u32_to_be_bytes (word_of_nat (length body)) @ body @ sig @ padding) = Some ct \<and>
         pr_ed_key_ok P (pp_identity_public s) \<and>
         pr_ed_verify_strict P (pp_identity_public s)
           (SIGNATURE_DOMAIN @ [1, 1] @ pp_identity_public s @ pp_agreement_public s
            @ pp_fingerprint me @ mid @ u32_to_be_bytes (word_of_nat (length body)) @ body) sig))"

lemma derive_recipient_Ok_iff:
  "derive_message_key_recipient P a e r = Ok key \<longleftrightarrow> (\<exists>b\<in>set (pr_x25519_dh P a e). b \<noteq> 0) \<and>
     pr_hkdf P (Some MESSAGE_KEY_SALT) (pr_x25519_dh P a e) (MESSAGE_KEY_INFO @ e @ r) 32 = Some key"
  by (auto simp: derive_message_key_recipient_def derive_message_key_from_shared_def hkdf_32_def
      reject_all_zero_def and_then_Inr_iff ok_or_def list_all_iff Let_def split: option.splits)

text \<open>The same over the definitions of the code.\<close>

lemma letter_in_alt:
  "letter_in P rs letter blob \<longleftrightarrow>
     (let s = ol_sender letter; me = secrets_profile P rs; body = ol_body letter;
          mid = ol_message_id letter in
      profile_ok P s \<and> length mid = 32 \<and> length body \<le> MAX_BODY_LEN \<and>
      (\<exists>e nonce key sig padding ct. length e = 32 \<and> length nonce = 24 \<and> length key = 32 \<and>
         length sig = 64 \<and> length blob = 270 + length body + length padding \<and>
         blob = e @ nonce @ ct \<and>
         derive_message_key_recipient P (is_agreement_secret rs) e (pp_agreement_public me) = Ok key \<and>
         pr_aead_encrypt P key nonce (outer_aad e nonce)
           (internal_layout (pp_identity_public s) (pp_agreement_public s) (pp_fingerprint me) mid
              body sig padding) = Some ct \<and>
         verify_message_signature P s (pp_fingerprint me) mid body sig = Ok ()))"
proof (cases "length (ol_body letter) \<le> MAX_BODY_LEN")
  case True
  then have "length (ol_body letter) < 2 ^ 32" by (simp add: MAX_BODY_LEN_def)
  then show ?thesis
    by (simp add: letter_in_def Let_def derive_recipient_Ok_iff outer_aad_def internal_layout_def
        verify_message_signature_Ok_iff signature_input_Ok_iff PROTOCOL_VERSION_def
        CRYPTO_SUITE_CLASSICAL_V1_def)
qed (simp add: letter_in_def Let_def)

lemma secrets_profile_fingerprint: "hash_law P \<Longrightarrow> length (pp_fingerprint (secrets_profile P s)) = 32"
  by (simp add: secrets_profile_def fingerprint_def hash_lawD)

lemma blob_split: "blob = blob_ephemeral blob @ blob_nonce blob @ blob_ciphertext blob"
  using drop_split [of 24 32 blob] by (simp add: blob_parts)

lemma opens_letter_in:
  assumes hash: "hash_law P" and exact: "aead_exact P"
    and opens: "open_letter P rs rp contacts blob = Ok letter"
  shows "letter_in P rs letter blob"
proof -
  from opens obtain key pt pm where
    v: "valid_blob_len (length blob)" and rp: "secrets_profile P rs = rp"
    and key: "derive_message_key_recipient P (is_agreement_secret rs) (blob_ephemeral blob)
       (pp_agreement_public rp) = Ok key" "length key = 32"
    and dec: "pr_aead_decrypt P key (blob_nonce blob)
       (outer_aad (blob_ephemeral blob) (blob_nonce blob)) (blob_ciphertext blob) = Some pt"
    and parse: "parse_internal P pt = Ok pm" "pm_recipient_fingerprint pm = pp_fingerprint rp"
    and sig: "verify_message_signature P (pm_sender pm) (pm_recipient_fingerprint pm)
       (pm_message_id pm) (pm_body pm) (pm_signature pm) = Ok ()"
    and letter: "letter = letter_of contacts pm"
    by (rule open_letter_OkE)
  have len: "56 \<le> length blob" "length blob \<le> 2097152"
    using v by (simp_all add: valid_blob_len_def protocol_consts)
  from exact dec have enc: "pr_aead_encrypt P key (blob_nonce blob)
      (outer_aad (blob_ephemeral blob) (blob_nonce blob)) pt = Some (blob_ciphertext blob)"
    "length (blob_ciphertext blob) = length pt + 16" by (auto simp: aead_exact_def)
  then have pt: "length blob = length pt + 72" using len by (simp add: blob_parts)
  then have "length pt \<le> usize_max" using len by (simp add: usize_max_def)
  from parse(1) [unfolded parse_internal_Ok_iff [OF this]] obtain padding where
    pm: "fields_ok pm" "pt = layout_of pm padding" "profile_ok P (pm_sender pm)"
    using hash by (auto simp: fields_ok_def) (metis profile_new_ok)
  from pm(1,2) have "length pt = 198 + length (pm_body pm) + length padding"
    by (simp add: layout_of_def length_internal_layout fields_ok_def)
  then have "length blob = 270 + length (pm_body pm) + length padding" using pt by simp
  moreover have "length (blob_ephemeral blob) = 32" "length (blob_nonce blob) = 24"
    using len by (simp_all add: blob_parts)
  moreover have "pt = internal_layout (pp_identity_public (pm_sender pm)) (pp_agreement_public (pm_sender pm))
      (pp_fingerprint rp) (pm_message_id pm) (pm_body pm) (pm_signature pm) padding"
    by (simp add: pm(2) layout_of_def parse(2))
  moreover have "length (pm_message_id pm) = 32" "length (pm_body pm) \<le> MAX_BODY_LEN"
    "length (pm_signature pm) = 64" using pm(1) by (simp_all add: fields_ok_def)
  moreover have "ol_sender letter = pm_sender pm" "ol_message_id letter = pm_message_id pm"
    "ol_body letter = pm_body pm" by (simp_all add: letter letter_of_def)
  moreover note key enc(1) pm(3) sig [unfolded parse(2)] blob_split [of blob]
  ultimately show ?thesis unfolding letter_in_alt Let_def rp by metis
qed

lemma letter_in_opens:
  assumes hash: "hash_law P" and law: "aead_law P" and v: "valid_blob_len (length blob)"
    and letter: "letter_in P rs letter blob"
    and trust: "ol_sender_trust letter = classify_sender contacts (ol_sender letter)"
  shows "open_letter P rs (secrets_profile P rs) contacts blob = Ok letter"
proof -
  let ?s = "ol_sender letter" and ?rp = "secrets_profile P rs"
  from letter obtain e nonce key sig padding ct where
    s: "profile_ok P ?s" "length (ol_message_id letter) = 32" "length (ol_body letter) \<le> MAX_BODY_LEN"
    and len: "length e = 32" "length nonce = 24" "length key = 32" "length sig = 64"
    "length blob = 270 + length (ol_body letter) + length padding" and blob: "blob = e @ nonce @ ct"
    and key: "derive_message_key_recipient P (is_agreement_secret rs) e (pp_agreement_public ?rp) = Ok key"
    and enc: "pr_aead_encrypt P key nonce (outer_aad e nonce) (internal_layout (pp_identity_public ?s)
      (pp_agreement_public ?s) (pp_fingerprint ?rp) (ol_message_id letter) (ol_body letter) sig padding) = Some ct"
    and sig: "verify_message_signature P ?s (pp_fingerprint ?rp) (ol_message_id letter) (ol_body letter) sig = Ok ()"
    unfolding letter_in_alt Let_def by blast
  define pm where "pm = \<lparr>pm_sender = ?s, pm_recipient_fingerprint = pp_fingerprint ?rp,
      pm_message_id = ol_message_id letter, pm_body = ol_body letter, pm_signature = sig\<rparr>"
  have lay: "internal_layout (pp_identity_public ?s) (pp_agreement_public ?s) (pp_fingerprint ?rp)
      (ol_message_id letter) (ol_body letter) sig padding = layout_of pm padding"
    by (simp add: layout_of_def pm_def)
  have ok: "fields_ok pm" "?s = profile_new P (pp_identity_public ?s) (pp_agreement_public ?s)"
    using s len(4) secrets_profile_fingerprint [OF hash] by (auto simp: fields_ok_def pm_def profile_ok_def)
  have "length (layout_of pm padding) = 198 + length (pm_body pm) + length padding"
    using ok(1) by (simp add: layout_of_def length_internal_layout fields_ok_def)
  moreover have "length blob \<le> 2097152" using v by (simp add: valid_blob_len_def protocol_consts)
  ultimately have small: "length (layout_of pm padding) \<le> usize_max" "length (layout_of pm padding) \<le> aead_max_len"
    using len(5) by (simp_all add: pm_def usize_max_def aead_max_len_def)
  have "pr_aead_decrypt P key nonce (outer_aad e nonce) ct = Some (layout_of pm padding)"
    using aead_lawE [OF law len(3,2) small(2)] enc lay by (metis option.inject)
  moreover have "parse_internal P (layout_of pm padding) = Ok pm"
    unfolding parse_internal_Ok_iff [OF small(1)] using ok by (auto simp: pm_def)
  moreover note parts = blob_parts_join [OF len(1,2), of ct, folded blob]
  ultimately have "open_letter P rs ?rp contacts blob = Ok (letter_of contacts pm)"
    using v len(3) key sig
    by (intro open_letter_OkI [where key = key and pt = "layout_of pm padding"]) (simp_all add: parts pm_def)
  then show ?thesis using trust by (simp add: letter_of_def pm_def)
qed

lemma open_letter_iff:
  assumes "hash_law P" and "aead_law P" and "aead_exact P"
  shows "open_letter P rs rp contacts blob = Ok letter \<longleftrightarrow>
    secrets_profile P rs = rp \<and> valid_blob_len (length blob) \<and> letter_in P rs letter blob \<and>
    ol_sender_trust letter = classify_sender contacts (ol_sender letter)" (is "?opens \<longleftrightarrow> ?image")
proof
  show "?opens \<Longrightarrow> ?image"
    using opens_letter_in [OF assms(1,3)] by (auto elim!: open_letter_OkE simp: letter_of_def)
  show "?image \<Longrightarrow> ?opens" using letter_in_opens [OF assms(1,2)] by blast
qed

text \<open>The first element of a list with a property.\<close>

definition first_with :: "('a \<Rightarrow> bool) \<Rightarrow> 'a list \<Rightarrow> 'a \<Rightarrow> bool" where
  "first_with Q xs x \<longleftrightarrow> (\<exists>i<length xs. Q (xs ! i) \<and> x = xs ! i \<and> (\<forall>j<i. \<not> Q (xs ! j)))"

lemma find_Some_first: "find Q xs = Some x \<longleftrightarrow> first_with Q xs x"
  by (simp add: find_Some_iff first_with_def)

lemma first_withD: "first_with Q xs x \<Longrightarrow> x \<in> set xs \<and> Q x"
  by (auto simp: first_with_def)

definition shares_key :: "public_profile \<Rightarrow> contact \<Rightarrow> bool" where
  "shares_key s c \<longleftrightarrow> pp_identity_public (ct_profile c) = pp_identity_public s \<or>
     pp_agreement_public (ct_profile c) = pp_agreement_public s"

lemma classify_sender_alt:
  "classify_sender contacts s =
     (case find (\<lambda>c. ct_profile c = s) contacts of
        Some c \<Rightarrow> Pinned (ct_alias c)
      | None \<Rightarrow> (case find (shares_key s) contacts of
                   Some c \<Rightarrow> Mismatch (ct_alias c) | None \<Rightarrow> Unknown))"
proof -
  have "shares_key s = (\<lambda>c. pp_identity_public (ct_profile c) = pp_identity_public s \<or>
     pp_agreement_public (ct_profile c) = pp_agreement_public s)"
    by (simp add: fun_eq_iff shares_key_def)
  then show ?thesis by (simp only: classify_sender_def)
qed

lemma classify_sender_Pinned_iff:
  "classify_sender contacts s = Pinned n \<longleftrightarrow>
     (\<exists>c. first_with (\<lambda>c. ct_profile c = s) contacts c \<and> ct_alias c = n)"
  by (auto simp: classify_sender_alt find_Some_first [symmetric] split: option.splits)

lemma classify_sender_Mismatch_iff:
  "classify_sender contacts s = Mismatch n \<longleftrightarrow>
     (\<forall>c\<in>set contacts. ct_profile c \<noteq> s) \<and>
     (\<exists>c. first_with (shares_key s) contacts c \<and> ct_alias c = n)"
proof (cases "find (\<lambda>c. ct_profile c = s) contacts")
  case None
  then have "\<forall>c\<in>set contacts. ct_profile c \<noteq> s" by (simp add: find_None_iff)
  then show ?thesis
    by (auto simp: classify_sender_alt None find_Some_first [symmetric] split: option.splits)
next
  case (Some c)
  then have "c \<in> set contacts" "ct_profile c = s"
    by (auto simp: find_Some_first dest: first_withD)
  with Some show ?thesis by (auto simp: classify_sender_alt)
qed

lemma classify_sender_Unknown_iff:
  "classify_sender contacts s = Unknown \<longleftrightarrow> (\<forall>c\<in>set contacts. \<not> shares_key s c)"
proof (cases "find (\<lambda>c. ct_profile c = s) contacts")
  case None
  then have "classify_sender contacts s = Unknown \<longleftrightarrow> find (shares_key s) contacts = None"
    by (simp add: classify_sender_alt split: option.split)
  then show ?thesis by (simp add: find_None_iff) blast
next
  case (Some c)
  then have "c \<in> set contacts" "shares_key s c"
    by (auto simp: find_Some_first shares_key_def dest: first_withD)
  with Some show ?thesis by (auto simp: classify_sender_alt)
qed

text \<open>A blob that \<open>seal\<close> made opens for its recipient, to the body that was sealed.\<close>

lemma open_sealed:
  assumes laws: "hash_law P" "dh_law P" "sign_law P" "aead_law P"
    and ss: "secrets_ok ss" and rs: "secrets_ok rs"
    and seal: "seal P ss sp (secrets_profile P rs) body w = (Ok blob, w')"
  shows "\<exists>mid. length mid = 32 \<and> open_letter P rs (secrets_profile P rs) contacts blob =
    Ok \<lparr>ol_body = body, ol_message_id = mid, ol_sender = sp,
        ol_sender_trust = classify_sender contacts sp\<rparr>"
proof -
  let ?rp = "secrets_profile P rs"
  from seal obtain e nonce mid padding internal key ct where
    body: "length body \<le> MAX_BODY_LEN" "padded_blob_len (length body) = Some (length blob)"
    and len: "length e = 32" "length nonce = 24" "length mid = 32"
    and int: "serialize_internal P ss sp ?rp mid body padding = Ok internal"
    and li: "length internal = length blob - OUTER_OVERHEAD"
    and key: "derive_message_key_sender P e (pr_x25519_public P e) (pp_agreement_public ?rp) = Ok key"
      "length key = 32"
    and ct: "pr_aead_encrypt P key nonce (outer_aad (pr_x25519_public P e) nonce) internal = Some ct"
    and blob: "blob = pr_x25519_public P e @ nonce @ ct"
    by (rule seal_OkE)
  from serialize_internal_Ok [OF int] obtain sig where
    sig: "sign_message P ss sp (pp_fingerprint ?rp) mid body = Ok sig"
    and lay: "internal = internal_layout (pp_identity_public sp) (pp_agreement_public sp)
      (pp_fingerprint ?rp) mid body sig padding" by blast
  note sigs = sign_message_verifies [OF laws(3) ss sig]
  from sign_message_Ok [OF sig] have sp: "sp = secrets_profile P ss" by blast
  have oks: "profile_ok P sp" "profile_ok P ?rp"
    using laws ss rs by (auto simp: sp intro: secrets_profile_ok)
  define pm where "pm = \<lparr>pm_sender = sp, pm_recipient_fingerprint = pp_fingerprint ?rp,
      pm_message_id = mid, pm_body = body, pm_signature = sig\<rparr>"
  have vb: "valid_blob_len (length blob)" using body(2) by (simp add: padded_blob_len_least)
  have "length blob \<le> 2097152" using vb by (simp add: valid_blob_len_def MAX_BLOB_LEN_def)
  then have small: "length internal \<le> usize_max" "length internal \<le> aead_max_len"
    using li by (simp_all add: usize_max_def aead_max_len_def)
  have "parse_internal P internal = Ok pm"
    unfolding parse_internal_Ok_iff [OF small(1)]
    using oks len body sigs
    by (auto simp: fields_ok_def pm_def layout_of_def lay profile_ok_def)
  moreover have "pr_aead_decrypt P key nonce (outer_aad (pr_x25519_public P e) nonce) ct = Some internal"
    using aead_lawE [OF laws(4) key(2) len(2) small(2)] ct by (metis option.inject)
  moreover have "derive_message_key_recipient P (is_agreement_secret rs) (pr_x25519_public P e)
      (pp_agreement_public ?rp) = Ok key"
    using key(1) message_key_agreement [OF laws(2) len(1), of "is_agreement_secret rs"] rs
    by (simp add: secrets_profile_def secrets_ok_def)
  moreover have "length (pr_x25519_public P e) = 32" using laws(2) len(1) by (simp add: dh_lawD)
  note parts = blob_parts_join [OF this len(2), of ct, folded blob]
  ultimately have "open_letter P rs ?rp contacts blob = Ok (letter_of contacts pm)"
    using vb key(2) sigs(1)
    by (intro open_letter_OkI [where key = key and pt = internal]) (simp_all add: parts pm_def)
  with len(3) show ?thesis by (auto simp: letter_of_def pm_def)
qed

section \<open>Properties of letters\<close>

text \<open>C20: The plaintext parser accepts exactly the byte strings with the documented layout, and
  returns the fields that were laid out, whatever the padding.\<close>

theorem parse_internal_exact:
  assumes "length pt \<le> usize_max"
  shows "parse_internal P pt = Ok pm \<longleftrightarrow>
    fields_ok pm \<and> (\<exists>padding. pt = layout_of pm padding) \<and>
    pm_sender pm = profile_new P (pp_identity_public (pm_sender pm))
      (pp_agreement_public (pm_sender pm))"
  using assms by (rule parse_internal_Ok_iff)

text \<open>Witness of C20: a letter of two bytes with three bytes of padding.\<close>

theorem parse_internal_exact_witness:
  "parse_internal sample_primitives
     (layout_of \<lparr>pm_sender = profile_new sample_primitives (replicate 32 1) (replicate 32 2),
        pm_recipient_fingerprint = replicate 32 3, pm_message_id = replicate 32 4,
        pm_body = [5, 6], pm_signature = replicate 64 7\<rparr> [8, 8, 8]) =
   Ok \<lparr>pm_sender = profile_new sample_primitives (replicate 32 1) (replicate 32 2),
        pm_recipient_fingerprint = replicate 32 3, pm_message_id = replicate 32 4,
        pm_body = [5, 6], pm_signature = replicate 64 7\<rparr>"
proof -
  let ?pm = "\<lparr>pm_sender = profile_new sample_primitives (replicate 32 1) (replicate 32 2),
        pm_recipient_fingerprint = replicate 32 3, pm_message_id = replicate 32 4,
        pm_body = [5, 6], pm_signature = replicate 64 7\<rparr>"
  have f: "fields_ok ?pm" by (simp add: fields_ok_def MAX_BODY_LEN_def)
  have "length (layout_of ?pm [8, 8, 8]) \<le> usize_max"
    by (simp add: layout_of_def length_internal_layout usize_max_def)
  from parse_internal_exact [OF this, of sample_primitives ?pm] f show ?thesis by auto
qed

text \<open>C31: The reader-based parser computes, errors included, what the table of offsets says: every
  field is the stretch of bytes at its fixed place.\<close>

theorem parse_internal_is_table:
  assumes "length pt \<le> usize_max"
  shows "parse_internal P pt = parse_table P pt"
  using assms by (rule parse_internal_table)

text \<open>Witness of C31: a body that claims to be longer than the rest of the message.\<close>

theorem parse_internal_is_table_witness:
  "parse_internal sample_primitives ([1, 1] @ replicate 196 9) =
     Err (InvalidInput ''invalid body length'')"
  using parse_internal_is_table [of "[1, 1] @ replicate 196 9" sample_primitives]
  by (simp add: usize_max_def parse_table_def claimed_len_def u32_from_be_bytes_def MAX_BODY_LEN_def)

text \<open>C19: A sender is shown as pinned under the first contact with the same profile, as a
  mismatch under the first contact that shares one of the two keys with a different profile,
  and as unknown only when no contact shares a key.\<close>

theorem classify_sender_spec:
  "(classify_sender contacts s = Pinned n \<longleftrightarrow>
      (\<exists>c. first_with (\<lambda>c. ct_profile c = s) contacts c \<and> ct_alias c = n)) \<and>
   (classify_sender contacts s = Mismatch n \<longleftrightarrow>
      (\<forall>c\<in>set contacts. ct_profile c \<noteq> s) \<and>
      (\<exists>c. first_with (shares_key s) contacts c \<and> ct_alias c = n)) \<and>
   (classify_sender contacts s = Unknown \<longleftrightarrow> (\<forall>c\<in>set contacts. \<not> shares_key s c))"
  using classify_sender_Pinned_iff classify_sender_Mismatch_iff classify_sender_Unknown_iff by blast

text \<open>Witness of C19: the pinned identity key with another agreement key.\<close>

theorem classify_sender_spec_witness:
  "classify_sender
     [\<lparr>ct_alias = [0x61], ct_profile = profile_new sample_primitives [9] [9]\<rparr>,
      \<lparr>ct_alias = [0x62], ct_profile = profile_new sample_primitives [1] [2]\<rparr>]
     (profile_new sample_primitives [1] [3]) = Mismatch [0x62]"
proof -
  let ?s = "profile_new sample_primitives [1] [3]"
  let ?c = "\<lparr>ct_alias = [0x62], ct_profile = profile_new sample_primitives [1] [2]\<rparr>"
  let ?cs = "[\<lparr>ct_alias = [0x61], ct_profile = profile_new sample_primitives [9] [9]\<rparr>, ?c]"
  have "first_with (shares_key ?s) ?cs ?c"
    unfolding first_with_def by (rule exI [of _ 1]) (simp add: shares_key_def)
  moreover have "\<forall>c\<in>set ?cs. ct_profile c \<noteq> ?s" by (simp add: profile_new_def)
  ultimately show ?thesis using classify_sender_spec [of ?cs ?s "[0x62]"] by auto
qed

end
