(* ===== verification/Storage.thy ===== *)
theory Storage
  imports Message
begin

text \<open>
  \<open>src/src/storage.rs\<close>: the state directory with the identity and the pinned contacts, the
  unlock key beside it, and the files of blobs. Every function is a computation over the
  world, call for call, with the early returns of \<open>?\<close>; \<open>cfg(unix)\<close> is the platform
  modelled.
\<close>

section \<open>The operations\<close>

record state_paths =
  sp_root :: path
  sp_identity_public :: path
  sp_identity_encrypted :: path
  sp_contacts :: path

definition from_root :: "path \<Rightarrow> state_paths" where
  "from_root root =
     \<lparr>sp_root = root,
      sp_identity_public =
        path_join (path_join root (path_of_bytes (ascii ''identity'')))
          (path_of_bytes (ascii ''identity.pub'')),
      sp_identity_encrypted =
        path_join (path_join root (path_of_bytes (ascii ''identity'')))
          (path_of_bytes (ascii ''identity.key.enc'')),
      sp_contacts = path_join root (path_of_bytes (ascii ''contacts''))\<rparr>"

definition discover :: "state_paths io" where
  "discover =
     bind_st (env_var ''SEALED_HOME'') (\<lambda>sealed_home.
     bind_st (case sealed_home of
         Some p \<Rightarrow> ret (path_of_bytes p)
       | None \<Rightarrow>
           bind_st (env_var ''HOME'') (\<lambda>home.
           bind_st (case home of Some h \<Rightarrow> ret (Some h) | None \<Rightarrow> env_var ''USERPROFILE'') (\<lambda>base.
           bind_st (lift_result (ok_or
             (NotFound ''home directory is unavailable; set SEALED_HOME'') base)) (\<lambda>base.
           ret (path_join (path_of_bytes base) (path_of_bytes (ascii ''.sealed''))))))) (\<lambda>root.
     ret (from_root root)))"

subsection \<open>Files and directories\<close>

definition reject_existing :: "path \<Rightarrow> string \<Rightarrow> unit io" where
  "reject_existing p message =
     bind_st (attempt (symlink_metadata p)) (\<lambda>r.
     case r of
       Inr _ \<Rightarrow> throw (InvalidInput message)
     | Inl e \<Rightarrow> if e = Io NotFoundKind then ret () else throw e)"

definition ensure_regular_file :: "path \<Rightarrow> unit io" where
  "ensure_regular_file p =
     bind_st (symlink_metadata p) (\<lambda>md.
     if is_symlink_node md \<or> \<not> is_file_node md then
       throw (InvalidInput ''path is not a regular file'')
     else ret ())"

definition ensure_real_directory :: "path \<Rightarrow> unit io" where
  "ensure_real_directory p =
     bind_st (symlink_metadata p) (\<lambda>md.
     if is_symlink_node md \<or> \<not> is_dir_node md then
       throw (InvalidInput ''path is not a real directory'')
     else ret ())"

text \<open>Octal 700 for directories and 600 for files.\<close>

definition dir_mode :: mode where "dir_mode = 0x1C0"
definition file_mode :: mode where "file_mode = 0x180"

definition set_private_permissions :: "path \<Rightarrow> unit io" where
  "set_private_permissions p =
     bind_st (symlink_metadata p) (\<lambda>md.
     let m = (if is_dir_node md then dir_mode else file_mode) in
     bind_st (set_permissions p m) (\<lambda>_. ret ()))"

definition create_private_directory :: "path \<Rightarrow> unit io" where
  "create_private_directory p =
     bind_st (path_exists p) (\<lambda>e.
     if e then
       bind_st (ensure_real_directory p) (\<lambda>_.
       bind_st (set_private_permissions p) (\<lambda>_. ret ()))
     else
       bind_st (create_dir p) (\<lambda>_.
       bind_st (set_private_permissions p) (\<lambda>_. ret ())))"

text \<open>\<open>path.parent().filter(|p| !p.is_empty()).unwrap_or(".")\<close>\<close>

definition parent_or_dot :: "path \<Rightarrow> path" where
  "parent_or_dot p =
     (case path_parent p of Some q \<Rightarrow> if q \<noteq> [] then q else [CurDir] | None \<Rightarrow> [CurDir])"

definition write_new_private :: "path \<Rightarrow> bytes \<Rightarrow> unit io" where
  "write_new_private p bytes =
     bind_st (ensure_real_directory (parent_or_dot p)) (\<lambda>_.
     bind_st (file_create_new file_mode p) (\<lambda>file.
     bind_st (file_write_all file bytes) (\<lambda>_.
     bind_st (file_sync_all file) (\<lambda>_.
     bind_st (set_private_permissions p) (\<lambda>_.
     ret ())))))"

definition read_regular_limited :: "path \<Rightarrow> nat \<Rightarrow> bytes io" where
  "read_regular_limited p maximum =
     bind_st (ensure_regular_file p) (\<lambda>_.
     bind_st (file_open p) (\<lambda>file.
     bind_st (file_metadata_len file) (\<lambda>len.
     if len > usize_max then throw (InvalidInput ''file is too large'') else
     let declared = len in
     if declared > maximum then throw (InvalidInput ''file is too large'') else
     bind_st (file_read_to_end (maximum + 1) file) (\<lambda>bytes.
     if length bytes > maximum then throw (InvalidInput ''file is too large'')
     else ret bytes))))"

definition read_blob :: "path \<Rightarrow> bytes io" where
  "read_blob p = read_regular_limited p MAX_BLOB_LEN"

definition consume_blob :: "path \<Rightarrow> unit io" where
  "consume_blob p =
     bind_st (ensure_regular_file p) (\<lambda>_.
     bind_st (remove_file p) (\<lambda>_. ret ()))"

definition map_not_found :: "error \<Rightarrow> string \<Rightarrow> error" where
  "map_not_found e message = (if e = Io NotFoundKind then NotFound message else e)"

subsection \<open>The identity\<close>

definition initialize :: "primitives \<Rightarrow> state_paths \<Rightarrow> path \<Rightarrow> public_profile io" where
  "initialize P sp unlock_path =
     (if path_starts_with unlock_path (sp_root sp) then
        throw (InvalidInput ''unlock key must be stored outside the Sealed state directory'')
      else
        bind_st (reject_existing (sp_identity_public sp) ''identity already exists'') (\<lambda>_.
        bind_st (reject_existing (sp_identity_encrypted sp) ''identity already exists'') (\<lambda>_.
        bind_st (reject_existing unlock_path ''unlock key destination already exists'') (\<lambda>_.
        bind_st (ensure_real_directory (parent_or_dot unlock_path)) (\<lambda>_.
        bind_st (create_private_directory (sp_root sp)) (\<lambda>_.
        bind_st (lift_result (ok_or (InvalidInput ''identity path has no parent'')
          (path_parent (sp_identity_public sp)))) (\<lambda>identity_dir.
        bind_st (create_private_directory identity_dir) (\<lambda>_.
        bind_st (create_private_directory (sp_contacts sp)) (\<lambda>_.
        bind_st (random_array 32) (\<lambda>unlock_key.
        bind_st (secrets_generate P) (\<lambda>(secrets, profile).
        bind_st (encrypt_private_identity P secrets unlock_key) (\<lambda>encrypted.
        bind_st (write_new_private unlock_path (encode_unlock_key unlock_key)) (\<lambda>_.
        bind_st (write_new_private (sp_identity_public sp) (profile_encode profile)) (\<lambda>_.
        bind_st (attempt (write_new_private (sp_identity_encrypted sp) encrypted)) (\<lambda>written.
        case written of
          Inl e \<Rightarrow>
            bind_st (attempt (remove_file (sp_identity_public sp))) (\<lambda>_. throw e)
        | Inr _ \<Rightarrow> ret profile)))))))))))))))"

definition export_profile :: "primitives \<Rightarrow> state_paths \<Rightarrow> public_profile io" where
  "export_profile P sp =
     bind_st (read_regular_limited (sp_identity_public sp) 512) (\<lambda>bytes.
     lift_result (profile_parse P bytes))"

definition load_identity ::
  "primitives \<Rightarrow> state_paths \<Rightarrow> path \<Rightarrow> (identity_secrets \<times> public_profile) io" where
  "load_identity P sp unlock_path =
     bind_st (read_regular_limited unlock_path 128) (\<lambda>unlock_bytes.
     bind_st (lift_result (parse_unlock_key unlock_bytes)) (\<lambda>unlock_key.
     bind_st (read_regular_limited (sp_identity_encrypted sp) 512) (\<lambda>encrypted.
     bind_st (export_profile P sp) (\<lambda>profile.
     bind_st (lift_result (map_err (\<lambda>_. InvalidInput ''cannot unlock identity'')
       (decrypt_private_identity P encrypted unlock_key))) (\<lambda>secrets.
     if secrets_profile P secrets \<noteq> profile then
       throw (InvalidInput ''encrypted identity does not match public identity'')
     else ret (secrets, profile))))))"

subsection \<open>Contacts\<close>

definition contact_path :: "state_paths \<Rightarrow> bytes \<Rightarrow> path" where
  "contact_path sp alias = path_join (sp_contacts sp) (path_of_bytes (alias @ ascii ''.contact''))"

definition trust_profile :: "primitives \<Rightarrow> state_paths \<Rightarrow> path \<Rightarrow> bytes \<Rightarrow> public_profile io" where
  "trust_profile P sp source alias =
     (if \<not> validate_alias alias then
        throw (InvalidInput (''contact name must contain only ASCII letters, digits, ''
          @ [CHR 0x27, CHR ''-'', CHR 0x27] @ '' or '' @ [CHR 0x27, CHR ''_'', CHR 0x27]))
      else
        bind_st (read_regular_limited source 512) (\<lambda>bytes.
        bind_st (lift_result (profile_parse P bytes)) (\<lambda>profile.
        bind_st (create_private_directory (sp_contacts sp)) (\<lambda>_.
        let destination = contact_path sp alias in
        bind_st (path_exists destination) (\<lambda>e.
        if e then
          bind_st (read_regular_limited destination 512) (\<lambda>pinned_bytes.
          bind_st (lift_result (profile_parse P pinned_bytes)) (\<lambda>pinned.
          if pinned = profile then ret profile else throw IdentityMismatch))
        else
          bind_st (write_new_private destination (profile_encode profile)) (\<lambda>_.
          ret profile))))))"

definition contact_of :: "primitives \<Rightarrow> state_paths \<Rightarrow> bytes \<Rightarrow> contact io" where
  "contact_of P sp alias =
     (if \<not> validate_alias alias then throw (InvalidInput ''invalid contact name'')
      else
        bind_st (map_err_st (\<lambda>e. map_not_found e ''contact is not pinned'')
          (read_regular_limited (contact_path sp alias) 512)) (\<lambda>bytes.
        bind_st (lift_result (profile_parse P bytes)) (\<lambda>profile.
        ret \<lparr>ct_alias = alias, ct_profile = profile\<rparr>)))"

text \<open>\<open>OsStr::to_str\<close>\<close>

definition to_str :: "bytes \<Rightarrow> bytes option" where
  "to_str s = (if utf8_valid s then Some s else None)"

fun load_contacts :: "primitives \<Rightarrow> path list \<Rightarrow> contact list io" where
  "load_contacts P [] = ret []"
| "load_contacts P (p # paths) =
     bind_st (lift_result (ok_or (InvalidInput ''invalid contact filename'')
       (Option.bind (Option.bind (file_stem p) to_str)
          (\<lambda>s. if validate_alias s then Some s else None)))) (\<lambda>alias.
     bind_st (read_regular_limited p 512) (\<lambda>bytes.
     bind_st (lift_result (profile_parse P bytes)) (\<lambda>profile.
     bind_st (load_contacts P paths) (\<lambda>rest.
     ret (\<lparr>ct_alias = alias, ct_profile = profile\<rparr> # rest)))))"

definition is_contact_path :: "path \<Rightarrow> bool" where
  "is_contact_path p \<longleftrightarrow> Option.bind (path_extension p) to_str = Some (ascii ''contact'')"

definition all_contacts :: "primitives \<Rightarrow> state_paths \<Rightarrow> contact list io" where
  "all_contacts P sp =
     bind_st (path_exists (sp_contacts sp)) (\<lambda>e.
     if \<not> e then ret []
     else
       bind_st (ensure_real_directory (sp_contacts sp)) (\<lambda>_.
       bind_st (read_dir (sp_contacts sp)) (\<lambda>entries.
       load_contacts P (sort (filter is_contact_path entries)))))"

section \<open>What the operations leave alone\<close>

text \<open>Reading and checking only looks, on every outcome.\<close>

lemma keeps_checks [simp]:
  "keeps looks (reject_existing p msg)" "keeps looks (ensure_regular_file p)"
  "keeps looks (ensure_real_directory p)"
  unfolding reject_existing_def ensure_regular_file_def ensure_real_directory_def
  by (intro looking.keeps_rules; auto)+

lemma keeps_read_regular_limited [simp]: "keeps looks (read_regular_limited p n)"
  unfolding read_regular_limited_def Let_def by (intro looking.keeps_rules) auto

lemma keeps_load_contacts [simp]: "keeps looks (load_contacts P ps)"
proof (induction ps)
  case (Cons p ps)
  then show ?case unfolding load_contacts.simps by (intro looking.keeps_rules) auto
qed (simp only: load_contacts.simps looking.keeps_ret)

lemma keeps_reads [simp]:
  "keeps looks (export_profile P sp)" "keeps looks (load_identity P sp u)"
  "keeps looks (contact_of P sp a)" "keeps looks (all_contacts P sp)"
  unfolding export_profile_def load_identity_def contact_of_def all_contacts_def
  by (intro looking.keeps_rules; auto)+

lemma keeps_read_blob [simp]: "keeps looks (read_blob p)"
  by (simp add: read_blob_def)

lemma keeps_set_private_permissions [simp]: "keeps extends (set_private_permissions p)"
  unfolding set_private_permissions_def Let_def
  by (intro extending.keeps_rules) (auto intro: keeps_looks_extends)

lemma keeps_create_private_directory [simp]: "keeps extends (create_private_directory p)"
  unfolding create_private_directory_def
  by (intro extending.keeps_rules) (auto intro: keeps_looks_extends)

section \<open>Writing a new file\<close>

lemma ensure_real_directory_Ok_iff:
  "ensure_real_directory p w = (Ok u, w') \<longleftrightarrow>
     w_faults w (w_calls w) = None \<and> w' = tick w \<and>
     (\<exists>l m. lookup_node (w_fs w) False (w_cwd w) p = Inr (l, DirNode m))"
  by (auto simp: ensure_real_directory_def st_iffs symlink_metadata_Ok_iff if_distrib [of "\<lambda>f. f s" for s]
      elim!: is_dir_node.elims split: if_splits intro!: exI [of _ "DirNode m" for m])

lemma set_private_permissions_Ok_iff:
  "set_private_permissions p w = (Ok u, w') \<longleftrightarrow>
     w_faults w (w_calls w) = None \<and> w_faults w (Suc (w_calls w)) = None \<and>
     (\<exists>l n l' n'. lookup_node (w_fs w) False (w_cwd w) p = Inr (l, n) \<and>
        lookup_node (w_fs w) True (w_cwd w) p = Inr (l', n') \<and>
        w' = (tick (tick w))\<lparr>w_fs :=
          fs_put l' (set_node_mode (if is_dir_node n then dir_mode else file_mode) n') (w_fs w)\<rparr>)"
  by (auto simp: set_private_permissions_def Let_def st_iffs symlink_metadata_Ok_iff
      set_permissions_Ok_iff)

text \<open>
  A successful write: the place was free, it now holds a private file with just these bytes,
  and nothing else in the tree has changed.
\<close>

lemma write_new_private_Ok:
  assumes "write_new_private p b w = (Ok u, w')"
  shows "\<exists>l. resolve (w_fs w) False (w_cwd w) p = Inr l \<and> fs_get (w_fs w) l = None \<and>
    lookup_node (w_fs w') False (w_cwd w) p = Inr (l, FileNode file_mode b) \<and>
    (\<forall>k. k \<noteq> l \<longrightarrow> fs_get (w_fs w') k = fs_get (w_fs w) k)"
proof -
  let ?m = "file_mode AND NOT (w_umask w)"
  from assms obtain l where l: "resolve (w_fs w) False (w_cwd w) p = Inr l" "fs_get (w_fs w) l = None"
    and perm: "set_private_permissions p ((tick (tick (tick (tick w))))
        \<lparr>w_fs := fs_put l (FileNode ?m b) (fs_put l (FileNode ?m []) (w_fs w))\<rparr>) = (Ok u, w')"
    by (auto simp: write_new_private_def st_iffs ensure_real_directory_Ok_iff
        file_create_new_Ok_iff file_write_all_Ok_iff file_sync_all_Ok_iff fs_append_def tick_upd)
  let ?fs = "fs_put l (FileNode ?m b) (fs_put l (FileNode ?m []) (w_fs w))"
  have look: "lookup_node ?fs False (w_cwd w) p = Inr (l, FileNode ?m b)"
    using resolve_extends [of "w_fs w" ?fs False "w_cwd w" p l] l
    by (auto simp: lookup_node_Inr_iff fs_extends_def)
  then have "lookup_node ?fs True (w_cwd w) p = Inr (l, FileNode ?m b)"
    by (rule lookup_node_follow) simp
  with look perm have w': "w_fs w' = fs_put l (FileNode file_mode b) ?fs"
    by (auto simp: set_private_permissions_Ok_iff)
  have "lookup_node (w_fs w') False (w_cwd w) p = Inr (l, FileNode file_mode b)"
    using resolve_extends [of "w_fs w" "w_fs w'" False "w_cwd w" p l] l
    by (auto simp: w' lookup_node_Inr_iff fs_extends_def)
  with l w' show ?thesis by auto
qed

text \<open>On every outcome a write touches at most the free place its path names.\<close>

lemma keeps_write_new_private [simp]: "keeps extends (write_new_private p b)"
proof (rule keepsI)
  fix w r w'
  assume run: "write_new_private p b w = (r, w')"
  obtain r1 w1 where 1: "ensure_real_directory (parent_or_dot p) w = (r1, w1)" by fastforce
  then have x1: "extends w w1" by (metis keepsD keeps_checks(3) looks_extends)
  obtain r2 w2 where 2: "file_create_new file_mode p w1 = (r2, w2)" by fastforce
  then have x2: "extends w1 w2" by (metis keepsD keeps_creating(1))
  show "extends w w'"
  proof (cases "\<exists>u l. r1 = Inr u \<and> r2 = Inr l")
    case False
    with run 1 2 x1 x2 show ?thesis
      by (cases r1; cases r2) (auto simp: write_new_private_def bind_st_def intro: extending.frame_trans)
  next
    case True
    then obtain u l where r: "r1 = Inr u" "r2 = Inr l" by blast
    let ?rest = "bind_st (file_write_all l b) (\<lambda>_. bind_st (file_sync_all l) (\<lambda>_.
      bind_st (set_private_permissions p) (\<lambda>_. ret ())))"
    have "keeps (extends_except {l}) ?rest"
      by (intro excepting.keeps_rules)
        (simp_all add: keeps_extends_except keeps_looks_extends)
    moreover have "?rest w2 = (r, w')"
      using run 1 2 r by (simp add: write_new_private_def)
    ultimately have "extends_except {l} w2 w'" by (rule keepsD)
    with x2 have "extends_except {l} w1 w'"
      by (metis extends_is_except excepting.frame_trans)
    moreover have "fs_get (w_fs w1) l = None"
      using 2 r by (simp add: file_create_new_Ok_iff)
    ultimately have "extends w1 w'" by (auto intro: extends_except_fresh)
    with x1 show ?thesis by (rule extending.frame_trans)
  qed
qed

lemma write_new_private_file_at:
  assumes "write_new_private p b w = (Ok u, w')"
  shows "file_at w' p = Some b" and "file_at w p = None"
proof -
  have "extends w w'" using assms by (metis keepsD keeps_write_new_private)
  then show "file_at w' p = Some b"
    using write_new_private_Ok [OF assms]
    by (auto simp: file_at_iff extends_def same_process_def)
  show "file_at w p = None"
    using write_new_private_Ok [OF assms]
    by (auto simp: file_at_def lookup_node_def)
qed

lemma keeps_trust_profile [simp]: "keeps extends (trust_profile P sp src a)"
  unfolding trust_profile_def Let_def
  by (intro extending.keeps_rules) (auto intro: keeps_looks_extends)


lemma set_private_permissions_fs:
  assumes "set_private_permissions p w = (r, w')"
  shows "w_fs w' = w_fs w \<or>
    (\<exists>l n m. lookup_node (w_fs w) True (w_cwd w) p = Inr (l, n) \<and>
       w_fs w' = fs_put l (set_node_mode m n) (w_fs w))"
  using assms
  by (auto simp: set_private_permissions_def Let_def bind_st_def symlink_metadata_def os_query_def
      set_permissions_def os_call_def fs_chmod_def
      split: prod.splits option.splits sum.splits if_splits)

lemma file_write_all_fs:
  assumes "file_write_all l b w = (r, w')" and "fs_get (w_fs w) l = Some (FileNode m [])"
  shows "\<exists>n. w_fs w' = fs_put l (FileNode m (take n b)) (w_fs w) \<and> (r = Ok () \<longrightarrow> take n b = b) \<and>
    w_cwd w' = w_cwd w"
  using assms
  by (auto simp: file_write_all_def fs_append_def split: option.splits
      intro: exI [of _ "length b"])

lemma write_new_private_outcome:
  assumes run: "write_new_private p b w = (r, w')"
  shows "w_fs w' = w_fs w \<or>
    (\<exists>l m n. resolve (w_fs w) False (w_cwd w) p = Inr l \<and> fs_get (w_fs w) l = None \<and>
       fs_get (w_fs w') l = Some (FileNode m (take n b)) \<and>
       (\<forall>k. k \<noteq> l \<longrightarrow> fs_get (w_fs w') k = fs_get (w_fs w) k))"
proof -
  obtain r1 w1 where 1: "ensure_real_directory (parent_or_dot p) w = (r1, w1)" by fastforce
  from looks_fs [OF keeps_checks(3) this] have f1: "w_fs w1 = w_fs w" "w_cwd w1 = w_cwd w" by auto
  obtain r2 w2 where 2: "file_create_new file_mode p w1 = (r2, w2)" by fastforce
  show ?thesis
  proof (cases "\<exists>u l. r1 = Inr u \<and> r2 = Inr l")
    case False
    with run 1 2 f1 show ?thesis
      by (cases r1; cases r2)
        (auto simp: write_new_private_def bind_st_def file_create_new_def os_call_def
          fs_create_new_def split: option.splits sum.splits if_splits)
  next
    case True
    then obtain u l where r: "r1 = Inr u" "r2 = Inr l" by blast
    let ?m = "file_mode AND NOT (w_umask w1)"
    from 2 r f1 have l: "resolve (w_fs w) False (w_cwd w) p = Inr l" "fs_get (w_fs w) l = None"
      and f2: "w_fs w2 = fs_put l (FileNode ?m []) (w_fs w)" "w_cwd w2 = w_cwd w"
      by (auto simp: file_create_new_Ok_iff)
    obtain r3 w3 where 3: "file_write_all l b w2 = (r3, w3)" by fastforce
    from file_write_all_fs [OF this] f2 obtain n where
      f3: "w_fs w3 = fs_put l (FileNode ?m (take n b)) (w_fs w2)" "w_cwd w3 = w_cwd w" by auto
    obtain r4 w4 where 4: "file_sync_all l w3 = (r4, w4)" by fastforce
    from looks_fs [OF keeps_queries(6) this] f3 have
      f4: "w_fs w4 = w_fs w3" "w_cwd w4 = w_cwd w" by auto
    obtain r5 w5 where 5: "set_private_permissions p w4 = (r5, w5)" by fastforce
    have "lookup_node (w_fs w4) False (w_cwd w) p = Inr (l, FileNode ?m (take n b))"
      using resolve_extends [of "w_fs w" "w_fs w4" False "w_cwd w" p l] l f2 f3 f4
      by (auto simp: lookup_node_Inr_iff fs_extends_def)
    then have at: "lookup_node (w_fs w4) True (w_cwd w) p = Inr (l, FileNode ?m (take n b))"
      by (rule lookup_node_follow) simp
    have "w_fs w' = w_fs w4 \<or> w_fs w' = w_fs w5"
      using run 1 2 3 4 5 r f4
      by (cases r3; cases r4; cases r5) (auto simp: write_new_private_def)
    moreover have "\<exists>m. fs_get (w_fs w5) l = Some (FileNode m (take n b))"
      "\<forall>k. k \<noteq> l \<longrightarrow> fs_get (w_fs w5) k = fs_get (w_fs w) k"
      using set_private_permissions_fs [OF 5] at f2 f3 f4 by auto
    moreover have "\<exists>m. fs_get (w_fs w4) l = Some (FileNode m (take n b))"
      "\<forall>k. k \<noteq> l \<longrightarrow> fs_get (w_fs w4) k = fs_get (w_fs w) k"
      using f2 f3 f4 by auto
    ultimately have "(\<exists>m. fs_get (w_fs w') l = Some (FileNode m (take n b))) \<and>
        (\<forall>k. k \<noteq> l \<longrightarrow> fs_get (w_fs w') k = fs_get (w_fs w) k)" by auto
    with l show ?thesis by blast
  qed
qed

section \<open>Reading a regular file\<close>

lemma no_faults_call: "no_faults w \<Longrightarrow> symlink_metadata p w =
    (case lookup_node (w_fs w) False (w_cwd w) p of
       Inl k \<Rightarrow> Err (Io k) | Inr (l, n) \<Rightarrow> Ok n, tick w)"
  by (auto simp: symlink_metadata_def os_query_def os_call_def split: sum.splits)

definition read_spec :: "nat \<Rightarrow> world \<Rightarrow> path \<Rightarrow> bytes result" where
  "read_spec maximum w p =
     (case lookup_node (w_fs w) False (w_cwd w) p of
        Inl k \<Rightarrow> Err (Io k)
      | Inr (l, FileNode m c) \<Rightarrow>
          if length c \<le> maximum then Ok c else Err (InvalidInput ''file is too large'')
      | Inr (l, _) \<Rightarrow> Err (InvalidInput ''path is not a regular file''))"

lemma read_regular_limited_spec:
  assumes nf: "no_faults w" and max: "maximum < usize_max"
  shows "fst (read_regular_limited p maximum w) = read_spec maximum w p"
proof (cases "lookup_node (w_fs w) False (w_cwd w) p")
  case (Inl k)
  then show ?thesis
    by (simp add: read_spec_def read_regular_limited_def ensure_regular_file_def bind_st_def
        no_faults_call [OF nf])
next
  case (Inr ln)
  obtain l n where ln: "ln = (l, n)" by fastforce
  show ?thesis
  proof (cases n)
    case (FileNode m c)
    have "lookup_node (w_fs w) True (w_cwd w) p = Inr (l, FileNode m c)"
      using Inr ln FileNode by (auto intro: lookup_node_follow)
    then have at: "file_open p (tick w) = (Ok l, tick (tick w))"
      "fs_get (w_fs w) l = Some (FileNode m c)"
      using nf by (simp_all add: file_open_Ok_iff lookup_node_Inr_iff)
    have "ensure_regular_file p w = (Ok (), tick w)"
      using Inr ln FileNode by (simp add: ensure_regular_file_def no_faults_call [OF nf])
    moreover have "file_metadata_len l (tick (tick w)) = (Ok (length c), tick (tick (tick w)))"
      using at(2) nf by (simp add: file_metadata_len_def os_query_Ok_iff)
    moreover have "file_read_to_end (maximum + 1) l (tick (tick (tick w))) =
        (Ok (take (maximum + 1) c), tick (tick (tick (tick w))))"
      using at(2) nf by (simp add: file_read_to_end_def os_query_Ok_iff)
    ultimately show ?thesis
      using at(1) max Inr ln FileNode
      by (auto simp: read_regular_limited_def read_spec_def Let_def)
  qed (use Inr ln in \<open>simp_all add: read_spec_def read_regular_limited_def ensure_regular_file_def
        bind_st_def no_faults_call [OF nf]\<close>)
qed

lemma read_regular_limited_Ok:
  assumes "read_regular_limited p maximum w = (Ok b, w')"
  shows "file_at w p = Some b" and "length b \<le> maximum"
  using assms
  by (auto simp: read_regular_limited_def ensure_regular_file_def Let_def st_iffs call_Ok_iffs
      file_metadata_len_def file_read_to_end_def os_query_Ok_iff file_at_iff
      split: if_splits option.splits node.splits elim!: is_file_node.elims
      simp: lookup_node_Inr_iff dest: resolve_file_follow)


section \<open>Private directories\<close>

lemma create_private_directory_Ok:
  assumes "create_private_directory p w = (Ok u, w')"
  shows "\<exists>l. lookup_node (w_fs w') False (w_cwd w) p = Inr (l, DirNode dir_mode)"
proof -
  have perm: "\<exists>l. lookup_node (w_fs w') False (w_cwd v) p = Inr (l, DirNode dir_mode)"
    if run: "set_private_permissions p v = (Ok (), w')"
      and at: "lookup_node (w_fs v) False (w_cwd v) p = Inr (l, DirNode m)" for v l m
  proof -
    have "lookup_node (w_fs v) True (w_cwd v) p = Inr (l, DirNode m)"
      using at by (rule lookup_node_follow) simp
    with run at have "w_fs w' = fs_put l (DirNode dir_mode) (w_fs v)"
      by (auto simp: set_private_permissions_Ok_iff)
    moreover have "fs_extends (w_fs v) (w_fs w')"
      using keepsD [OF keeps_set_private_permissions run] by (simp add: extends_def)
    ultimately show ?thesis
      using lookup_node_extends [OF _ at, of "w_fs w'"] by (auto simp: lookup_node_Inr_iff)
  qed
  from assms obtain e v where e: "path_exists p w = (Ok e, v)"
    and rest: "(if e then bind_st (ensure_real_directory p) (\<lambda>_.
        bind_st (set_private_permissions p) (\<lambda>_. ret ()))
      else bind_st (create_dir p) (\<lambda>_. bind_st (set_private_permissions p) (\<lambda>_. ret ()))) v
        = (Ok u, w')"
    by (auto simp: create_private_directory_def elim!: bind_st_OkE)
  from looks_fs [OF keeps_path_exists e] have cwd: "w_cwd v = w_cwd w" by simp
  show ?thesis
  proof (cases e)
    case True
    with rest obtain l m where "set_private_permissions p (tick v) = (Ok (), w')"
      "lookup_node (w_fs (tick v)) False (w_cwd (tick v)) p = Inr (l, DirNode m)"
      by (auto simp: bind_st_Ok_iff ensure_real_directory_Ok_iff)
    from perm [OF this] show ?thesis using cwd by simp
  next
    case False
    let ?n = "DirNode (0x1FF AND NOT (w_umask v))"
    from False rest obtain l where l: "resolve (w_fs v) False (w_cwd v) p = Inr l"
      "fs_get (w_fs v) l = None"
      "set_private_permissions p ((tick v)\<lparr>w_fs := fs_put l ?n (w_fs v)\<rparr>) = (Ok (), w')"
      by (auto simp: bind_st_Ok_iff create_dir_Ok_iff)
    have "lookup_node (fs_put l ?n (w_fs v)) False (w_cwd v) p = Inr (l, ?n)"
      using l(1,2) by (rule lookup_node_put_new) simp
    with perm [OF l(3)] cwd show ?thesis by simp
  qed
qed

section \<open>Initialisation\<close>

lemma keeps_write_pair:
  "keeps extends (bind_st (write_new_private a x) (\<lambda>_.
     bind_st (attempt (write_new_private b y)) (\<lambda>written.
     case written of
       Inl e \<Rightarrow> bind_st (attempt (remove_file a)) (\<lambda>_. throw e)
     | Inr _ \<Rightarrow> ret v)))" (is "keeps extends (bind_st ?first ?rest)")
proof (rule keepsI)
  fix w r w'
  assume run: "bind_st ?first ?rest w = (r, w')"
  obtain r1 w1 where 1: "?first w = (r1, w1)" by fastforce
  obtain r2 w2 where 2: "write_new_private b y w1 = (r2, w2)" by fastforce
  have x1: "extends w w1" and x2: "extends w1 w2"
    using 1 2 by (auto intro: keepsD [OF keeps_write_new_private])
  show "extends w w'"
  proof (cases r1; cases r2)
    fix u e
    assume r: "r1 = Inr u" "r2 = Inl e"
    from write_new_private_Ok 1 r(1) obtain l m where l: "fs_get (w_fs w) l = None"
      and at: "lookup_node (w_fs w1) False (w_cwd w) a = Inr (l, FileNode m x)" by blast
    obtain r3 where 3: "remove_file a w2 = (r3, w')"
      using run 1 2 r by (auto simp: bind_st_def split: prod.splits)
    have "resolve (w_fs w2) False (w_cwd w2) a = Inr l"
      using lookup_node_extends [OF _ at, of "w_fs w2"] x1 x2
      by (auto simp: extends_def same_process_def lookup_node_Inr_iff)
    with 3 have "extends_except {l} w2 w'" by (rule remove_file_except)
    with x1 x2 have "extends_except {l} w w'"
      by (meson extends_is_except excepting.frame_trans)
    then show ?thesis using l by (auto intro: extends_except_fresh)
  qed (use run 1 2 x1 x2 in \<open>auto simp: bind_st_def attempt_def intro: extending.frame_trans\<close>)
qed

lemma keeps_initialize [simp]: "keeps extends (initialize P sp u)"
  unfolding initialize_def
  by (intro extending.keeps_if extending.keeps_throw extending.keeps_bind [rotated]
      extending.keeps_prod keeps_write_pair)
    (simp_all add: keeps_looks_extends)

lemma initialize_Ok:
  assumes "initialize P sp u w = (Ok profile, w')"
  shows "\<exists>key secrets encrypted wa wb.
    length key = 32 \<and> secrets_ok secrets \<and> profile = secrets_profile P secrets \<and>
    encrypt_private_identity P secrets key wa = (Ok encrypted, wb) \<and>
    file_at w' u = Some (encode_unlock_key key) \<and>
    file_at w' (sp_identity_public sp) = Some (profile_encode profile) \<and>
    file_at w' (sp_identity_encrypted sp) = Some encrypted"
proof -
  from assms obtain key secrets encrypted w1 w2 w3 w4 w5 w6 p' where
    key: "random_array 32 w1 = (Ok key, w2)"
    and gen: "secrets_generate P w2 = (Ok (secrets, p'), w3)"
    and enc: "encrypt_private_identity P secrets key w3 = (Ok encrypted, w4)"
    and f1: "write_new_private u (encode_unlock_key key) w4 = (Ok (), w5)"
    and f2: "write_new_private (sp_identity_public sp) (profile_encode p') w5 = (Ok (), w6)"
    and f3: "write_new_private (sp_identity_encrypted sp) encrypted w6 = (Ok (), w')"
    and p': "p' = profile"
    by (auto simp: initialize_def bind_st_Ok_iff split: if_splits elim!: case_sumE)
  have x: "extends w5 w6" "extends w6 w'"
    using f2 f3 by (auto intro: keepsD [OF keeps_write_new_private])
  have "file_at w' u = Some (encode_unlock_key key)"
    using write_new_private_file_at(1) [OF f1] x by (blast intro: file_at_extends)
  moreover have "file_at w' (sp_identity_public sp) = Some (profile_encode p')"
    using write_new_private_file_at(1) [OF f2] x(2) by (blast intro: file_at_extends)
  moreover note write_new_private_file_at(1) [OF f3] random_array_length [OF key]
    secrets_generate_Ok [OF gen] enc
  ultimately show ?thesis using p' by blast
qed

section \<open>Operations that succeed\<close>

definition real_dir :: "world \<Rightarrow> path \<Rightarrow> bool" where
  "real_dir w p \<longleftrightarrow>
     (case lookup_node (w_fs w) False (w_cwd w) p of Inl _ \<Rightarrow> False | Inr (l, n) \<Rightarrow> is_dir_node n)"

lemma real_dir_iff:
  "real_dir w p \<longleftrightarrow> (\<exists>l m. lookup_node (w_fs w) False (w_cwd w) p = Inr (l, DirNode m))"
  by (auto simp: real_dir_def split: sum.splits elim!: is_dir_node.elims)

lemma real_dir_extends: "extends w w' \<Longrightarrow> real_dir w p \<Longrightarrow> real_dir w' p"
  using lookup_node_extends [of "w_fs w" "w_fs w'" False "w_cwd w" p]
  by (fastforce simp: real_dir_iff extends_def same_process_def)

lemma set_private_permissions_runs:
  assumes "no_faults w" and "lookup_node (w_fs w) False (w_cwd w) p = Inr (l, n)"
    and "\<not> is_symlink_node n"
  shows "\<exists>w'. set_private_permissions p w = (Ok (), w')"
  using assms lookup_node_follow [OF assms(2,3)]
  by (auto simp: set_private_permissions_Ok_iff)

lemma create_private_directory_runs:
  assumes "no_faults w" and "real_dir w p"
  shows "\<exists>w'. create_private_directory p w = (Ok (), w') \<and>
    (\<forall>k. fs_get (w_fs w') k = None \<longleftrightarrow> fs_get (w_fs w) k = None)"
proof -
  from assms(2) obtain l m where at: "lookup_node (w_fs w) False (w_cwd w) p = Inr (l, DirNode m)"
    by (auto simp: real_dir_iff)
  then have at': "lookup_node (w_fs w) True (w_cwd w) p = Inr (l, DirNode m)"
    by (rule lookup_node_follow) simp
  with assms(1) have "metadata p w = (Ok (DirNode m), tick w)" by (simp add: metadata_Ok_iff)
  then have 1: "path_exists p w = (Ok True, tick w)"
    by (simp add: path_exists_def bind_st_def attempt_def)
  have 2: "ensure_real_directory p (tick w) = (Ok (), tick (tick w))"
    using assms(1) at by (simp add: ensure_real_directory_Ok_iff)
  obtain w' where 3: "set_private_permissions p (tick (tick w)) = (Ok (), w')"
    using set_private_permissions_runs [of "tick (tick w)" p l "DirNode m"] assms(1) at by auto
  from set_private_permissions_fs [OF 3] at' have
    "fs_get (w_fs w') k = None \<longleftrightarrow> fs_get (w_fs w) k = None" for k
    by (auto simp: lookup_node_Inr_iff split: if_splits)
  with 1 2 3 show ?thesis by (simp add: create_private_directory_def)
qed

lemma write_new_private_runs:
  assumes nf: "no_faults w" and dir: "real_dir w (parent_or_dot p)"
    and l: "resolve (w_fs w) False (w_cwd w) p = Inr l" "fs_get (w_fs w) l = None"
  shows "\<exists>w'. write_new_private p b w = (Ok (), w')"
proof -
  let ?n = "\<lambda>c. FileNode (file_mode AND NOT (w_umask w)) c"
  let ?w1 = "tick w" let ?w2 = "(tick ?w1)\<lparr>w_fs := fs_put l (?n []) (w_fs w)\<rparr>"
  let ?w3 = "(tick ?w2)\<lparr>w_fs := fs_append l b (w_fs ?w2)\<rparr>"
  have 1: "ensure_real_directory (parent_or_dot p) w = (Ok (), ?w1)"
    using nf dir by (simp add: ensure_real_directory_Ok_iff real_dir_iff)
  have 2: "file_create_new file_mode p ?w1 = (Ok l, ?w2)"
    using nf l by (simp add: file_create_new_Ok_iff)
  have 3: "file_write_all l b ?w2 = (Ok (), ?w3)" using nf by (simp add: file_write_all_Ok_iff)
  have 4: "file_sync_all l ?w3 = (Ok (), tick ?w3)" using nf by (simp add: file_sync_all_Ok_iff)
  have "lookup_node (w_fs ?w3) False (w_cwd w) p = Inr (l, ?n b)"
    using resolve_extends [of "w_fs w" "w_fs ?w3" False "w_cwd w" p l] l
    by (auto simp: lookup_node_Inr_iff fs_extends_def fs_append_def)
  then obtain w' where 5: "set_private_permissions p (tick ?w3) = (Ok (), w')"
    using set_private_permissions_runs [of "tick ?w3" p l "?n b"] nf by auto
  have "write_new_private p b w = (Ok (), w')"
    by (simp only: write_new_private_def bind_st_Inr 1 2 3 4 5 st_simps)
  then show ?thesis by blast
qed

section \<open>Properties of the files\<close>

text \<open>C23: Whatever happens while a new file is written, on success or on any error, nothing that
  was in the tree is touched: at most the free place the path names is filled, with the
  bytes or, after an error, with the beginning of them.\<close>

theorem write_new_private_touches_nothing:
  assumes "write_new_private p b w = (r, w')"
  shows "w_fs w' = w_fs w \<or>
    (\<exists>l m n. resolve (w_fs w) False (w_cwd w) p = Inr l \<and> fs_get (w_fs w) l = None \<and>
       fs_get (w_fs w') l = Some (FileNode m (take n b)) \<and>
       (\<forall>k. k \<noteq> l \<longrightarrow> fs_get (w_fs w') k = fs_get (w_fs w) k))"
  using assms by (rule write_new_private_outcome)

text \<open>Witness of C23: a device that fills up after one byte.\<close>

theorem write_new_private_touches_nothing_witness:
  "\<exists>w'. write_new_private [RootDir, Normal [0x66]] [1, 2, 3]
      (sample_world\<lparr>w_faults := (\<lambda>n. if n = 2 then Some (OtherKind, 1) else None)\<rparr>)
        = (Err (Io OtherKind), w') \<and> (\<exists>m n. fs_get (w_fs w') [[0x66]] = Some (FileNode m (take n [1, 2, 3])))"
proof -
  let ?w = "sample_world\<lparr>w_faults := (\<lambda>n. if n = 2 then Some (OtherKind, 1) else None)\<rparr>"
  have "\<exists>w'. write_new_private [RootDir, Normal [0x66]] [1, 2, 3] ?w = (Err (Io OtherKind), w') \<and>
      w_fs w' \<noteq> w_fs ?w"
    by (simp add: write_new_private_def ensure_real_directory_def symlink_metadata_def os_query_def
        os_call_def file_create_new_def file_write_all_def fs_append_def fs_create_new_def
        lookup_node_def resolve_def max_symlinks_def fs_get_def fs_put_def parent_or_dot_def
        path_parent_def sample_world_def bind_st_def numeral_eq_Suc file_mode_def)
  then obtain w' where w': "write_new_private [RootDir, Normal [0x66]] [1, 2, 3] ?w
      = (Err (Io OtherKind), w')" "w_fs w' \<noteq> w_fs ?w" by blast
  have "resolve (w_fs ?w) False (w_cwd ?w) [RootDir, Normal [0x66]] = Inr [[0x66]]"
    by (simp add: resolve_def max_symlinks_def sample_world_def fs_get_def numeral_eq_Suc)
  with w' write_new_private_touches_nothing [OF w'(1)] show ?thesis by auto
qed

text \<open>A file that was written is there: a regular file of mode 600 with exactly the bytes, at
  a place that was free.\<close>

theorem write_new_private_stores:
  assumes "write_new_private p b w = (Ok u, w')"
  shows "\<exists>l. fs_get (w_fs w) l = None \<and>
    lookup_node (w_fs w') False (w_cwd w) p = Inr (l, FileNode file_mode b)"
  using write_new_private_Ok [OF assms] by blast

text \<open>For instance, a file in the root directory.\<close>

theorem write_new_private_stores_example:
  "\<exists>w' l. write_new_private [RootDir, Normal [0x66]] [1, 2, 3] sample_world = (Ok (), w') \<and>
     lookup_node (w_fs w') False (w_cwd sample_world) [RootDir, Normal [0x66]]
       = Inr (l, FileNode file_mode [1, 2, 3])"
proof -
  have "no_faults sample_world" by (simp add: no_faults_def sample_world_def)
  moreover have "real_dir sample_world (parent_or_dot [RootDir, Normal [0x66]])"
    by (simp add: real_dir_def parent_or_dot_def path_parent_def lookup_node_def resolve_def
        sample_world_def fs_get_def)
  moreover have "resolve (w_fs sample_world) False (w_cwd sample_world) [RootDir, Normal [0x66]]
      = Inr [[0x66]]" "fs_get (w_fs sample_world) [[0x66]] = None"
    by (simp_all add: resolve_def sample_world_def fs_get_def)
  ultimately obtain w' where "write_new_private [RootDir, Normal [0x66]] [1, 2, 3] sample_world
      = (Ok (), w')" using write_new_private_runs by blast
  with write_new_private_stores [OF this] show ?thesis by blast
qed

text \<open>C24: Without faults, reading gives the contents of a regular file of at most the limit, and
  refuses everything else: what is missing, what is not a regular file (a link included) and
  what is too large.\<close>

theorem read_regular_limited_exact:
  assumes "no_faults w" and "maximum < usize_max"
  shows "fst (read_regular_limited p maximum w) =
    (case lookup_node (w_fs w) False (w_cwd w) p of
       Inl k \<Rightarrow> Err (Io k)
     | Inr (l, FileNode m c) \<Rightarrow>
         if length c \<le> maximum then Ok c else Err (InvalidInput ''file is too large'')
     | Inr (l, _) \<Rightarrow> Err (InvalidInput ''path is not a regular file''))"
  using read_regular_limited_spec [OF assms] by (simp add: read_spec_def)

text \<open>Witness of C24: a link to a file is not followed.\<close>

theorem read_regular_limited_exact_witness:
  "fst (read_regular_limited [RootDir, Normal [0x6C]] 512
      (sample_world\<lparr>w_fs := [([], DirNode 0x1ED), ([[0x6C]], SymlinkNode [Normal [0x66]]),
         ([[0x66]], FileNode 0x180 [1, 2])]\<rparr>)) = Err (InvalidInput ''path is not a regular file'')"
  using read_regular_limited_exact [of "sample_world\<lparr>w_fs := [([], DirNode 0x1ED),
      ([[0x6C]], SymlinkNode [Normal [0x66]]), ([[0x66]], FileNode 0x180 [1, 2])]\<rparr>" 512
      "[RootDir, Normal [0x6C]]"]
  by (simp add: no_faults_def sample_world_def usize_max_def lookup_node_def resolve_def fs_get_def)

end
