(* ===== verification/Store_Facts.thy ===== *)
theory Store_Facts
  imports Storage
begin

text \<open>
  What the state directory of \<open>src/src/storage.rs\<close> guarantees from one operation to the next:
  an identity that was initialised can be loaded and exported, a contact that was pinned is
  found again and never replaced, the list of contacts is exactly the pins. The locale
  \<open>write_once\<close> is the contract of such a store; the contacts and the public identity both
  are instances of it.
\<close>

section \<open>Loading the identity\<close>

text \<open>Without faults a read is the file's contents, when it is one and small enough.\<close>

lemma read_regular_limited_runs:
  assumes "no_faults w" and "maximum < usize_max" and "file_at w p = Some c" and "length c \<le> maximum"
  shows "\<exists>v. read_regular_limited p maximum w = (Ok c, v) \<and> looks w v"
proof -
  have "fst (read_regular_limited p maximum w) = Ok c"
    using assms by (auto simp: read_regular_limited_spec read_spec_def file_at_iff)
  then show ?thesis
    by (metis keepsD keeps_read_regular_limited prod.collapse)
qed

lemma small_limits: "512 < usize_max" "128 < usize_max"
  by (simp_all add: usize_max_def)

lemma export_profile_runs:
  assumes "no_faults w" and "profile_ok P p"
    and "file_at w (sp_identity_public sp) = Some (profile_encode p)"
  shows "\<exists>v. export_profile P sp w = (Ok p, v) \<and> looks w v"
proof -
  from read_regular_limited_runs [OF assms(1) small_limits(1) assms(3)] obtain v where
    "read_regular_limited (sp_identity_public sp) 512 w = (Ok (profile_encode p), v)" "looks w v"
    using length_profile_encode [OF assms(2)] by auto
  then show ?thesis using profile.dec_enc [OF assms(2)] by (simp add: export_profile_def)
qed

lemma export_profile_Ok:
  assumes "export_profile P sp w = (Ok p, w')"
  shows "file_at w (sp_identity_public sp) = Some (profile_encode p) \<and> profile_ok P p"
  using assms
  by (auto simp: export_profile_def bind_st_Ok_iff dest: read_regular_limited_Ok(1) profile.dec_Ok)

lemma load_identity_runs:
  assumes nf: "no_faults w" and key: "length key = 32"
    and u: "file_at w u = Some (encode_unlock_key key)"
    and e: "file_at w (sp_identity_encrypted sp) = Some encrypted" "length encrypted \<le> 512"
    and p: "file_at w (sp_identity_public sp) = Some (profile_encode (secrets_profile P s))"
      "profile_ok P (secrets_profile P s)"
    and d: "decrypt_private_identity P encrypted key = Ok s"
  shows "\<exists>v. load_identity P sp u w = (Ok (s, secrets_profile P s), v) \<and> looks w v"
proof -
  from read_regular_limited_runs [OF nf small_limits(2) u] obtain w1 where
    1: "read_regular_limited u 128 w = (Ok (encode_unlock_key key), w1)" "looks w w1"
    using length_encode_unlock_key [OF key] by auto
  have nf1: "no_faults w1" using nf 1(2) by (simp add: no_faults_looks)
  from read_regular_limited_runs [OF nf1 small_limits(1), of "sp_identity_encrypted sp"] obtain w2 where
    2: "read_regular_limited (sp_identity_encrypted sp) 512 w1 = (Ok encrypted, w2)" "looks w1 w2"
    using e 1(2) by (auto simp: file_at_looks)
  have l2: "looks w w2" using 1(2) 2(2) by (rule looking.frame_trans)
  from export_profile_runs [of w2 P "secrets_profile P s" sp] obtain w3 where
    3: "export_profile P sp w2 = (Ok (secrets_profile P s), w3)" "looks w2 w3"
    using nf p l2 by (auto simp: file_at_looks no_faults_looks)
  have "looks w w3" using l2 3(2) by (rule looking.frame_trans)
  with 1 2 3 d unlock.dec_enc [OF key] show ?thesis by (simp add: load_identity_def)
qed

lemma load_identity_Ok:
  assumes "load_identity P sp u w = (Ok (s, p), w')"
  shows "\<exists>key encrypted. length key = 32 \<and> file_at w u = Some (encode_unlock_key key) \<and>
    file_at w (sp_identity_encrypted sp) = Some encrypted \<and>
    decrypt_private_identity P encrypted key = Ok s \<and>
    file_at w (sp_identity_public sp) = Some (profile_encode p) \<and> profile_ok P p \<and>
    p = secrets_profile P s"
proof -
  from assms obtain ub key w1 encrypted w2 w3 where
    1: "read_regular_limited u 128 w = (Ok ub, w1)" "parse_unlock_key ub = Ok key"
    and 2: "read_regular_limited (sp_identity_encrypted sp) 512 w1 = (Ok encrypted, w2)"
    and 3: "export_profile P sp w2 = (Ok p, w3)"
    and d: "decrypt_private_identity P encrypted key = Ok s" and p: "p = secrets_profile P s"
    unfolding load_identity_def by (elim bind_st_OkE) (simp split: if_splits)
  have l1: "looks w w1" and l2: "looks w1 w2"
    by (rule keepsD [OF keeps_read_regular_limited 1(1)], rule keepsD [OF keeps_read_regular_limited 2])
  have "file_at w u = Some ub" "file_at w (sp_identity_encrypted sp) = Some encrypted"
    "file_at w (sp_identity_public sp) = Some (profile_encode p)" "profile_ok P p"
    using read_regular_limited_Ok(1) [OF 1(1)] read_regular_limited_Ok(1) [OF 2]
      export_profile_Ok [OF 3] file_at_looks [OF l1] file_at_looks [OF l2] by simp_all
  then show ?thesis using unlock.dec_Ok [OF 1(2)] d p by blast
qed

section \<open>The store of pinned contacts\<close>

text \<open>
  What a client may rely on of a store in which a key, once it has a value, keeps it: the
  relation \<open>R\<close> is what the rest of the program does to the state.
\<close>

locale write_once = frame R for R :: "'w \<Rightarrow> 'w \<Rightarrow> bool" +
  fixes view :: "'w \<Rightarrow> 'k \<Rightarrow> 'v option"
    and puts gets :: "'k \<Rightarrow> 'v \<Rightarrow> 'w \<Rightarrow> 'w \<Rightarrow> bool"
    and ready :: "'w \<Rightarrow> bool"
  assumes view_kept: "R w w' \<Longrightarrow> view w k = Some v \<Longrightarrow> view w' k = Some v"
    and puts_view: "puts k v w w' \<Longrightarrow> R w w' \<and> view w' k = Some v"
    and gets_view: "gets k v w w' \<Longrightarrow> R w w' \<and> view w k = Some v"
    and view_gets: "ready w \<Longrightarrow> view w k = Some v \<Longrightarrow> \<exists>w'. gets k v w w'"
begin

text \<open>A value put is the value got, whatever happened in between.\<close>

lemma puts_gets:
  assumes "puts k v w w1" and "R w1 w2"
  shows "gets k v' w2 w3 \<Longrightarrow> v' = v" and "ready w2 \<Longrightarrow> \<exists>w3. gets k v w2 w3"
proof -
  have "view w2 k = Some v" using assms puts_view view_kept by blast
  then show "gets k v' w2 w3 \<Longrightarrow> v' = v" and "ready w2 \<Longrightarrow> \<exists>w3. gets k v w2 w3"
    using gets_view view_gets by fastforce+
qed

text \<open>A key never gets a second value, and reads agree.\<close>

lemma puts_once:
  assumes "view w k = Some v" and "R w w1"
  shows "puts k v' w1 w2 \<Longrightarrow> v' = v" and "gets k v' w1 w2 \<Longrightarrow> v' = v"
proof -
  have at: "view w1 k = Some v" using assms view_kept by blast
  show "v' = v" if "puts k v' w1 w2"
    using at puts_view [OF that] view_kept by fastforce
  show "v' = v" if "gets k v' w1 w2"
    using at gets_view [OF that] by simp
qed

lemma gets_agree:
  assumes "gets k v w w1" and "R w1 w2" and "gets k v' w2 w3"
  shows "v' = v"
proof -
  have "view w k = Some v" "R w w1" using gets_view [OF assms(1)] by auto
  with puts_once(2) frame_trans [OF _ assms(2)] assms(3) show ?thesis by blast
qed

end

text \<open>Letters are long, everything the state directory holds is short.\<close>

definition is_blob :: "bytes \<Rightarrow> bool" where
  "is_blob c \<longleftrightarrow> MIN_BLOB_LEN \<le> length c"

definition pinned :: "primitives \<Rightarrow> state_paths \<Rightarrow> world \<Rightarrow> bytes \<Rightarrow> public_profile option" where
  "pinned P sp w alias =
     (if validate_alias alias then
        (case file_at w (contact_path sp alias) of
           None \<Rightarrow> None
         | Some c \<Rightarrow> (case profile_parse P c of Inl _ \<Rightarrow> None | Inr p \<Rightarrow> Some p))
      else None)"

lemma pinned_iff:
  "pinned P sp w alias = Some p \<longleftrightarrow>
     validate_alias alias \<and> profile_ok P p \<and>
     file_at w (contact_path sp alias) = Some (profile_encode p)"
proof (cases "file_at w (contact_path sp alias)")
  case (Some c)
  then show ?thesis
    using profile.dec_Ok_iff [of P c p] by (cases "profile_parse P c") (auto simp: pinned_def)
qed (simp add: pinned_def)

lemma profile_not_blob: "profile_ok P p \<Longrightarrow> \<not> is_blob (profile_encode p)"
  by (simp add: is_blob_def length_profile_encode MIN_BLOB_LEN_def)

lemma trust_profile_Ok:
  assumes "trust_profile P sp src alias w = (Ok p, w')"
  shows "pinned P sp w' alias = Some p" and "\<exists>b. file_at w src = Some b \<and> profile_parse P b = Ok p"
proof -
  from assms obtain b w1 w2 e w3 where valid: "validate_alias alias"
    and src: "read_regular_limited src 512 w = (Ok b, w1)" "profile_parse P b = Ok p"
    and dir: "create_private_directory (sp_contacts sp) w1 = (Ok (), w2)"
    and e: "path_exists (contact_path sp alias) w2 = (Ok e, w3)"
    and cases: "(\<exists>pb. e \<and> read_regular_limited (contact_path sp alias) 512 w3 = (Ok pb, w') \<and>
        profile_parse P pb = Ok p) \<or>
      (\<not> e \<and> write_new_private (contact_path sp alias) (profile_encode p) w3 = (Ok (), w'))"
    by (auto simp: trust_profile_def bind_st_Ok_iff Let_def split: if_splits)
  have ok: "profile_ok P p" using profile.dec_Ok [OF src(2)] by simp
  from cases have "file_at w' (contact_path sp alias) = Some (profile_encode p)"
  proof (elim disjE exE conjE)
    fix pb
    assume r: "read_regular_limited (contact_path sp alias) 512 w3 = (Ok pb, w')"
      and "profile_parse P pb = Ok p"
    then have "looks w3 w'" "pb = profile_encode p"
      using profile.dec_Ok by (auto intro: keepsD [OF keeps_read_regular_limited])
    with read_regular_limited_Ok(1) [OF r] show ?thesis by (simp add: file_at_looks)
  qed (rule write_new_private_file_at)
  with valid ok show "pinned P sp w' alias = Some p" by (simp add: pinned_iff)
  show "\<exists>b. file_at w src = Some b \<and> profile_parse P b = Ok p"
    using src read_regular_limited_Ok(1) by blast
qed

lemma contact_of_Ok:
  assumes "contact_of P sp alias w = (Ok c, w')"
  shows "ct_alias c = alias" and "pinned P sp w alias = Some (ct_profile c)"
  using assms
  by (auto simp: contact_of_def bind_st_Ok_iff pinned_iff split: if_splits
      dest!: read_regular_limited_Ok(1) profile.dec_Ok)

lemma contact_of_runs:
  assumes "no_faults w" and "pinned P sp w alias = Some p"
  shows "\<exists>w'. contact_of P sp alias w = (Ok \<lparr>ct_alias = alias, ct_profile = p\<rparr>, w')"
proof -
  from assms(2) have p: "validate_alias alias" "profile_ok P p"
    "file_at w (contact_path sp alias) = Some (profile_encode p)" by (simp_all add: pinned_iff)
  from read_regular_limited_runs [OF assms(1) small_limits(1) p(3)] obtain v where
    "read_regular_limited (contact_path sp alias) 512 w = (Ok (profile_encode p), v)"
    using length_profile_encode [OF p(2)] by auto
  then show ?thesis using p profile.dec_enc [OF p(2)] by (simp add: contact_of_def)
qed

text \<open>
  The contacts under \<open>sp\<close> are such a store, under everything that removes at most letters.
\<close>

definition puts_pin ::
  "primitives \<Rightarrow> state_paths \<Rightarrow> bytes \<Rightarrow> public_profile \<Rightarrow> world \<Rightarrow> world \<Rightarrow> bool" where
  "puts_pin P sp alias p w w' \<longleftrightarrow> (\<exists>src. trust_profile P sp src alias w = (Ok p, w'))"

definition gets_pin ::
  "primitives \<Rightarrow> state_paths \<Rightarrow> bytes \<Rightarrow> public_profile \<Rightarrow> world \<Rightarrow> world \<Rightarrow> bool" where
  "gets_pin P sp alias p w w' \<longleftrightarrow>
     contact_of P sp alias w = (Ok \<lparr>ct_alias = alias, ct_profile = p\<rparr>, w')"

interpretation pins: write_once "spares is_blob" "pinned P sp" "puts_pin P sp" "gets_pin P sp"
  no_faults for P sp
proof
  show "pinned P sp w' k = Some v" if "spares is_blob w w'" "pinned P sp w k = Some v" for w w' k v
    using that file_at_spares profile_not_blob by (fastforce simp: pinned_iff)
  show "spares is_blob w w' \<and> pinned P sp w' k = Some v" if "puts_pin P sp k v w w'" for k v w w'
    using that by (auto simp: puts_pin_def trust_profile_Ok(1)
        intro: extends_spares keepsD [OF keeps_trust_profile])
  show "spares is_blob w w' \<and> pinned P sp w k = Some v" if "gets_pin P sp k v w w'" for k v w w'
    using that by (auto simp: gets_pin_def dest: contact_of_Ok(2)
        intro!: extends_spares looks_extends keepsD [OF keeps_reads(3)])
  show "\<exists>w'. gets_pin P sp k v w w'" if "no_faults w" "pinned P sp w k = Some v" for w k v
    using contact_of_runs [OF that] by (simp add: gets_pin_def)
qed

section \<open>Where a contact is kept\<close>

lemma split_on_plain: "c \<notin> set s \<Longrightarrow> split_on c s = [s]"
  by (induction s) auto

lemma path_of_plain_name:
  assumes "slash \<notin> set s" and "2 < length s"
  shows "path_of_bytes s = [Normal s]"
proof -
  have "s \<noteq> []" "s \<noteq> [dot]" "s \<noteq> [dot, dot]" using assms(2) by auto
  moreover have "hd s \<noteq> slash" using assms(1) calculation(1) by (cases s) auto
  ultimately show ?thesis
    using split_on_plain [OF assms(1)]
    by (simp add: path_of_bytes_def component_of_def List.map_filter_simps)
qed

definition contact_file :: "bytes \<Rightarrow> bytes" where
  "contact_file alias = alias @ ascii ''.contact''"

lemma ascii_contact: "ascii ''.contact'' = dot # ascii ''contact''"
  by (simp add: ascii_def)

lemma plain_contact: "dot \<notin> set (ascii ''contact'')" "slash \<notin> set (ascii ''contact'')"
  by (simp_all add: ascii_def)

text \<open>A valid name gives a file directly in the directory of contacts, and no two the same.\<close>

lemma contact_path_child:
  assumes "validate_alias alias"
  shows "contact_path sp alias = sp_contacts sp @ [Normal (contact_file alias)]"
  using path_of_plain_name [of "contact_file alias"] validate_alias_safe [OF assms] plain_contact
  by (simp add: contact_path_def contact_file_def ascii_contact)

lemma contact_file_inject [simp]: "contact_file a = contact_file b \<longleftrightarrow> a = b"
  by (simp add: contact_file_def)

lemma contact_file_stem:
  assumes "validate_alias alias"
  shows "file_stem (p @ [Normal (contact_file alias)]) = Some alias"
    and "is_contact_path (p @ [Normal (contact_file alias)])"
proof -
  have u: "utf8_valid (ascii ''contact'')"
    by (rule utf8_valid_ascii) (simp add: ascii_def)
  have "split_last_dot (contact_file alias) = (Some alias, Some (ascii ''contact''))"
    using split_last_dot_append [OF plain_contact(1) validate_alias_safe(1) [OF assms]]
    by (simp add: contact_file_def ascii_contact)
  then show "file_stem (p @ [Normal (contact_file alias)]) = Some alias"
    and "is_contact_path (p @ [Normal (contact_file alias)])"
    using u by (simp_all add: file_stem_def is_contact_path_def path_extension_def to_str_def)
qed

text \<open>Conversely a file name with that extension is its stem and the extension.\<close>

lemma split_last_dot_join:
  assumes "split_last_dot n = (Some s, Some e)"
  shows "n = s @ dot # e"
proof -
  have "dot \<in> set n" using assms by (cases "dot \<in> set n") (simp_all add: split_last_dot_def)
  then obtain ys zs where n: "n = ys @ dot # zs" "dot \<notin> set zs" by (blast dest: split_list_last)
  show ?thesis
  proof (cases "ys = []")
    case True
    have "takeWhile (\<lambda>b. b \<noteq> dot) (rev zs @ [dot]) = rev zs"
      using n(2) by (induction zs rule: rev_induct) auto
    with assms n True show ?thesis by (simp add: split_last_dot_def Let_def)
  next
    case False
    with assms n split_last_dot_append [OF n(2) False] show ?thesis by simp
  qed
qed

lemma contact_entry:
  assumes "is_contact_path (p @ [Normal x])"
    and "Option.bind (Option.bind (file_stem (p @ [Normal x])) to_str)
       (\<lambda>s. if validate_alias s then Some s else None) = Some alias"
  shows "validate_alias alias" and "x = contact_file alias"
proof -
  from assms have v: "validate_alias alias" and "fst (split_last_dot x) = Some alias"
    "snd (split_last_dot x) = Some (ascii ''contact'')"
    by (auto simp: is_contact_path_def file_stem_def path_extension_def to_str_def
        bind_eq_Some_conv split: if_splits)
  then have "split_last_dot x = (Some alias, Some (ascii ''contact''))" by (simp add: prod_eq_iff)
  from split_last_dot_join [OF this] show "x = contact_file alias"
    by (simp add: contact_file_def ascii_contact)
  show "validate_alias alias" by (rule v)
qed

section \<open>All contacts\<close>

text \<open>The alias a path of the directory stands for, and the contact at it.\<close>

definition alias_of :: "path \<Rightarrow> bytes option" where
  "alias_of p = Option.bind (Option.bind (file_stem p) to_str)
     (\<lambda>s. if validate_alias s then Some s else None)"

definition contact_at :: "primitives \<Rightarrow> world \<Rightarrow> path \<Rightarrow> contact \<Rightarrow> bool" where
  "contact_at P w p c \<longleftrightarrow> alias_of p = Some (ct_alias c) \<and> profile_ok P (ct_profile c) \<and>
     file_at w p = Some (profile_encode (ct_profile c))"

lemma load_contacts_Cons:
  "load_contacts P (p # paths) =
     bind_st (lift_result (ok_or (InvalidInput ''invalid contact filename'') (alias_of p))) (\<lambda>alias.
     bind_st (read_regular_limited p 512) (\<lambda>bytes.
     bind_st (lift_result (profile_parse P bytes)) (\<lambda>profile.
     bind_st (load_contacts P paths) (\<lambda>rest.
     ret (\<lparr>ct_alias = alias, ct_profile = profile\<rparr> # rest)))))"
  by (simp add: alias_of_def)

lemma load_contacts_Ok:
  "load_contacts P paths w = (Ok cs, w') \<Longrightarrow> list_all2 (contact_at P w) paths cs"
proof (induction paths arbitrary: w cs)
  case (Cons p paths)
  from Cons.prems obtain al b v profile rest where
    a: "alias_of p = Some al" and b: "read_regular_limited p 512 w = (Ok b, v)"
    and p: "profile_parse P b = Ok profile" and rest: "load_contacts P paths v = (Ok rest, w')"
    and cs: "cs = \<lparr>ct_alias = al, ct_profile = profile\<rparr> # rest"
    unfolding load_contacts_Cons by (elim bind_st_OkE) simp
  have v: "looks w v" by (rule keepsD [OF keeps_read_regular_limited b])
  have "contact_at P v = contact_at P w"
    by (simp add: fun_eq_iff contact_at_def file_at_looks [OF v])
  with Cons.IH [OF rest] a read_regular_limited_Ok(1) [OF b] profile.dec_Ok [OF p]
  show ?case by (simp add: cs contact_at_def)
qed simp

lemma load_contacts_runs:
  assumes "no_faults w" and "list_all2 (contact_at P w) paths cs"
  shows "\<exists>w'. load_contacts P paths w = (Ok cs, w')"
  using assms
proof (induction paths arbitrary: w cs)
  case (Cons p paths)
  from Cons.prems(2) obtain c rest where cs: "cs = c # rest" and c: "contact_at P w p c"
    and rest: "list_all2 (contact_at P w) paths rest" by (auto simp: list_all2_Cons1)
  from c have len: "length (profile_encode (ct_profile c)) \<le> 512"
    using length_profile_encode [of P "ct_profile c"] by (simp add: contact_at_def)
  from c read_regular_limited_runs [OF Cons.prems(1) small_limits(1) _ len] obtain v where
    b: "read_regular_limited p 512 w = (Ok (profile_encode (ct_profile c)), v)" and v: "looks w v"
    by (auto simp: contact_at_def)
  have "contact_at P v = contact_at P w"
    by (simp add: fun_eq_iff contact_at_def file_at_looks [OF v])
  with Cons.IH [of v rest] rest Cons.prems(1) v obtain w' where
    "load_contacts P paths v = (Ok rest, w')" by (auto simp: no_faults_looks)
  with b c show ?case
    by (auto simp: cs load_contacts_Cons contact_at_def profile.dec_enc
        simp del: load_contacts.simps)
qed simp

text \<open>What \<open>read_dir\<close> lists of a real directory, and which of it are contacts.\<close>

definition contact_entries :: "state_paths \<Rightarrow> world \<Rightarrow> path list" where
  "contact_entries sp w =
     (case lookup_node (w_fs w) True (w_cwd w) (sp_contacts sp) of
        Inl _ \<Rightarrow> []
      | Inr (l, n) \<Rightarrow>
          sort (filter is_contact_path
            (map (\<lambda>x. sp_contacts sp @ [Normal x]) (fs_children (w_fs w) l))))"

lemma all_contacts_start:
  assumes nf: "no_faults w" and "real_dir w (sp_contacts sp)"
  shows "all_contacts P sp w = load_contacts P (contact_entries sp w) (tick (tick (tick w)))"
proof -
  from assms(2) obtain l m where
    at: "lookup_node (w_fs w) False (w_cwd w) (sp_contacts sp) = Inr (l, DirNode m)"
    by (auto simp: real_dir_iff)
  then have at': "lookup_node (w_fs w) True (w_cwd w) (sp_contacts sp) = Inr (l, DirNode m)"
    by (rule lookup_node_follow) simp
  have "path_exists (sp_contacts sp) w = (Ok True, tick w)"
    using nf at' by (simp add: path_exists_def bind_st_def attempt_def metadata_Ok_iff [THEN iffD2])
  moreover have "ensure_real_directory (sp_contacts sp) (tick w) = (Ok (), tick (tick w))"
    using nf at by (simp add: ensure_real_directory_Ok_iff)
  moreover have "read_dir (sp_contacts sp) (tick (tick w)) =
      (Ok (map (\<lambda>x. sp_contacts sp @ [Normal x]) (fs_children (w_fs w) l)), tick (tick (tick w)))"
    using nf at' by (auto simp: read_dir_Ok_iff)
  ultimately show ?thesis using at' by (simp add: all_contacts_def contact_entries_def)
qed

lemma contact_at_tick [simp]: "contact_at P (tick w) = contact_at P w"
  by (simp add: contact_at_def [abs_def] file_at_def)

lemma set_contact_entries:
  assumes "lookup_node (w_fs w) True (w_cwd w) (sp_contacts sp) = Inr (l, DirNode m)"
  shows "p \<in> set (contact_entries sp w) \<longleftrightarrow>
    is_contact_path p \<and> (\<exists>x. p = sp_contacts sp @ [Normal x] \<and> fs_get (w_fs w) (l @ [x]) \<noteq> None)"
  using assms by (auto simp: contact_entries_def set_fs_children)

lemma contact_at_pinned:
  assumes "p \<in> set (contact_entries sp w)"
  shows "contact_at P w p c \<longleftrightarrow>
    p = contact_path sp (ct_alias c) \<and> pinned P sp w (ct_alias c) = Some (ct_profile c)"
proof -
  from assms obtain x where p: "p = sp_contacts sp @ [Normal x]" and cp: "is_contact_path p"
    by (auto simp: contact_entries_def split: sum.splits)
  show ?thesis
  proof
    assume c: "contact_at P w p c"
    then have "alias_of p = Some (ct_alias c)" by (simp add: contact_at_def)
    with contact_entry [of "sp_contacts sp" x] cp p
    have "validate_alias (ct_alias c)" "x = contact_file (ct_alias c)" by (auto simp: alias_of_def)
    then show "p = contact_path sp (ct_alias c) \<and> pinned P sp w (ct_alias c) = Some (ct_profile c)"
      using c p by (simp add: contact_at_def pinned_iff contact_path_child)
  next
    assume c: "p = contact_path sp (ct_alias c) \<and> pinned P sp w (ct_alias c) = Some (ct_profile c)"
    then have v: "validate_alias (ct_alias c)" by (simp add: pinned_iff)
    then have "alias_of p = Some (ct_alias c)"
      using c contact_file_stem(1) [OF v] validate_alias_safe(4) [OF v]
      by (simp add: alias_of_def contact_path_child to_str_def utf8_valid_ascii)
    with c show "contact_at P w p c" by (simp add: contact_at_def pinned_iff)
  qed
qed

text \<open>Every pin is an entry.\<close>

lemma pinned_entry:
  assumes "real_dir w (sp_contacts sp)" and "pinned P sp w alias = Some p"
  shows "contact_path sp alias \<in> set (contact_entries sp w)"
proof -
  from assms(1) obtain l m where
    "lookup_node (w_fs w) False (w_cwd w) (sp_contacts sp) = Inr (l, DirNode m)"
    by (auto simp: real_dir_iff)
  then have at: "lookup_node (w_fs w) True (w_cwd w) (sp_contacts sp) = Inr (l, DirNode m)"
    by (rule lookup_node_follow) simp
  from assms(2) have v: "validate_alias alias" and f: "file_at w (contact_path sp alias) \<noteq> None"
    by (simp_all add: pinned_iff)
  from f have "fs_get (w_fs w) (l @ [contact_file alias]) \<noteq> None"
    using lookup_node_child(2) [OF at, of False "contact_file alias"]
    by (auto simp: file_at_def contact_path_child [OF v] split: option.splits)
  then show ?thesis
    using contact_file_stem(2) [OF v] set_contact_entries [OF at]
    by (auto simp: contact_path_child [OF v])
qed

lemma sorted_contact_entries:
  assumes "fs_ok (w_fs w)"
  shows "sorted (contact_entries sp w)" and "distinct (contact_entries sp w)"
  using assms distinct_fs_children [of "w_fs w"]
  by (auto simp: contact_entries_def fs_ok_def distinct_map inj_on_def
      intro!: distinct_filter split: sum.splits)

lemma all_contacts_exact:
  assumes "no_faults w" and "fs_ok (w_fs w)" and "real_dir w (sp_contacts sp)"
    and "all_contacts P sp w = (Ok cs, w')"
  shows "set cs = {c. pinned P sp w (ct_alias c) = Some (ct_profile c)}"
    and "distinct (map ct_alias cs)" and "sorted (map (\<lambda>c. contact_path sp (ct_alias c)) cs)"
proof -
  let ?ps = "contact_entries sp w"
  have "list_all2 (contact_at P w) ?ps cs"
    using load_contacts_Ok [of P ?ps "tick (tick (tick w))"] assms
    by (simp add: all_contacts_start)
  then have all: "list_all2 (\<lambda>p c. p = contact_path sp (ct_alias c) \<and>
      pinned P sp w (ct_alias c) = Some (ct_profile c)) ?ps cs"
    by (rule list.rel_mono_strong) (simp add: contact_at_pinned)
  then have ps: "?ps = map (\<lambda>c. contact_path sp (ct_alias c)) cs"
    by (simp add: list_all2_conv_all_nth list_eq_iff_nth_eq)
  from all have pin: "pinned P sp w (ct_alias c) = Some (ct_profile c)" if "c \<in> set cs" for c
    using that by (auto simp: list_all2_conv_all_nth in_set_conv_nth)
  show "set cs = {c. pinned P sp w (ct_alias c) = Some (ct_profile c)}"
  proof (intro equalityI subsetI)
    fix c :: contact
    assume "c \<in> {c. pinned P sp w (ct_alias c) = Some (ct_profile c)}"
    then have c: "pinned P sp w (ct_alias c) = Some (ct_profile c)" by simp
    from pinned_entry [OF assms(3) c] obtain c' where
      c': "c' \<in> set cs" "contact_path sp (ct_alias c) = contact_path sp (ct_alias c')"
      by (auto simp: ps)
    have "validate_alias (ct_alias c)" "validate_alias (ct_alias c')"
      using c pin [OF c'(1)] by (simp_all add: pinned_iff)
    with c'(2) have "ct_alias c = ct_alias c'" by (simp add: contact_path_child)
    with c pin [OF c'(1)] have "c = c'" by simp
    with c' show "c \<in> set cs" by simp
  qed (simp add: pin)
  show "sorted (map (\<lambda>c. contact_path sp (ct_alias c)) cs)"
    using sorted_contact_entries(1) [OF assms(2), of sp] by (simp add: ps)
  have "distinct (map (contact_path sp) (map ct_alias cs))"
    using sorted_contact_entries(2) [OF assms(2), of sp] by (simp add: ps comp_def)
  then show "distinct (map ct_alias cs)" by (simp only: distinct_map)
qed

text \<open>They are read without an error exactly when every entry is a pin.\<close>

lemma all_contacts_runs:
  assumes "no_faults w" and "real_dir w (sp_contacts sp)"
    and "\<forall>p \<in> set (contact_entries sp w). \<exists>a q. p = contact_path sp a \<and> pinned P sp w a = Some q"
  shows "\<exists>cs w'. all_contacts P sp w = (Ok cs, w')"
proof -
  have "\<exists>c. contact_at P w p c" if p: "p \<in> set (contact_entries sp w)" for p
  proof -
    from assms(3) p obtain a q where "p = contact_path sp a" "pinned P sp w a = Some q" by blast
    then show ?thesis
      using contact_at_pinned [OF p, of P "\<lparr>ct_alias = a, ct_profile = q\<rparr>"] by auto
  qed
  then obtain f where "\<forall>p \<in> set (contact_entries sp w). contact_at P w p (f p)" by metis
  then have "list_all2 (contact_at P w) (contact_entries sp w) (map f (contact_entries sp w))"
    by (simp add: list_all2_conv_all_nth)
  with load_contacts_runs [of "tick (tick (tick w))"] assms(1,2) show ?thesis
    by (fastforce simp: all_contacts_start)
qed

section \<open>Trusting a profile\<close>

lemma path_exists_runs:
  assumes "no_faults w"
  shows "path_exists p w =
    (Ok (\<exists>l n. lookup_node (w_fs w) True (w_cwd w) p = Inr (l, n)), tick w)"
  using assms
  by (cases "lookup_node (w_fs w) True (w_cwd w) p")
    (auto simp: path_exists_def bind_st_def attempt_def metadata_def os_query_def os_call_def)

text \<open>
  With a readable source and the directory of contacts in place, the rest is the decision:
  a free name is pinned, a pinned name is confirmed or refused.
\<close>

lemma trust_profile_start:
  assumes nf: "no_faults w" and valid: "validate_alias al" and dir: "real_dir w (sp_contacts sp)"
    and src: "file_at w src = Some (profile_encode p)" and ok: "profile_ok P p"
  shows "\<exists>v. extends w v \<and> (\<forall>k. fs_get (w_fs v) k = None \<longleftrightarrow> fs_get (w_fs w) k = None) \<and>
    trust_profile P sp src al w =
    bind_st (path_exists (contact_path sp al)) (\<lambda>e.
      if e then
        bind_st (read_regular_limited (contact_path sp al) 512) (\<lambda>pb.
        bind_st (lift_result (profile_parse P pb)) (\<lambda>pinned.
        if pinned = p then ret p else throw IdentityMismatch))
      else
        bind_st (write_new_private (contact_path sp al) (profile_encode p)) (\<lambda>_. ret p)) v"
proof -
  from read_regular_limited_runs [OF nf small_limits(1) src] obtain w1 where
    1: "read_regular_limited src 512 w = (Ok (profile_encode p), w1)" "looks w w1"
    using length_profile_encode [OF ok] by auto
  have nf1: "no_faults w1" using nf 1(2) by (simp add: no_faults_looks)
  have "real_dir w1 (sp_contacts sp)"
    using real_dir_extends [OF looks_extends [OF 1(2)]] dir by simp
  from create_private_directory_runs [OF nf1 this] obtain v where
    2: "create_private_directory (sp_contacts sp) w1 = (Ok (), v)"
    and k: "\<forall>k. fs_get (w_fs v) k = None \<longleftrightarrow> fs_get (w_fs w) k = None"
    using 1(2) by (auto simp: looks_def)
  from 2 have "extends w1 v" by (rule keepsD [OF keeps_create_private_directory])
  with 1(2) have x: "extends w v" by (meson looks_extends extending.frame_trans)
  have 3: "lift_result (profile_parse P (profile_encode p)) w1 = (Ok p, w1)"
    by (simp add: profile.dec_enc [OF ok])
  show ?thesis
    by (rule exI [of _ v]) (simp only: trust_profile_def valid if_False not_True_eq_False
        bind_st_Inr 1(1) 2 3 Let_def x k simp_thms)
qed

lemma trust_profile_pinned:
  assumes nf: "no_faults w" and dir: "real_dir w (sp_contacts sp)"
    and src: "file_at w src = Some (profile_encode p)" "profile_ok P p"
    and pin: "pinned P sp w al = Some q"
  shows "fst (trust_profile P sp src al w) = (if q = p then Ok p else Err IdentityMismatch)"
proof -
  from pin have q: "validate_alias al" "profile_ok P q"
    "file_at w (contact_path sp al) = Some (profile_encode q)" by (simp_all add: pinned_iff)
  from trust_profile_start [OF nf q(1) dir src] obtain v where x: "extends w v"
    and run: "trust_profile P sp src al w =
      bind_st (path_exists (contact_path sp al)) (\<lambda>e.
        if e then
          bind_st (read_regular_limited (contact_path sp al) 512) (\<lambda>pb.
          bind_st (lift_result (profile_parse P pb)) (\<lambda>pinned.
          if pinned = p then ret p else throw IdentityMismatch))
        else
          bind_st (write_new_private (contact_path sp al) (profile_encode p)) (\<lambda>_. ret p)) v"
    by blast
  have nfv: "no_faults v" using nf x by (simp add: no_faults_extends)
  have f: "file_at v (contact_path sp al) = Some (profile_encode q)"
    using x q(3) by (rule file_at_extends)
  then obtain l m where "lookup_node (w_fs v) False (w_cwd v) (contact_path sp al) =
      Inr (l, FileNode m (profile_encode q))" by (auto simp: file_at_iff)
  then have "lookup_node (w_fs v) True (w_cwd v) (contact_path sp al) =
      Inr (l, FileNode m (profile_encode q))" by (rule lookup_node_follow) simp
  then have 1: "path_exists (contact_path sp al) v = (Ok True, tick v)"
    by (simp add: path_exists_runs [OF nfv])
  from read_regular_limited_runs [of "tick v" 512 "contact_path sp al" "profile_encode q"] obtain u where
    2: "read_regular_limited (contact_path sp al) 512 (tick v) = (Ok (profile_encode q), u)"
    using nfv f length_profile_encode [OF q(2)] small_limits by (auto simp: file_at_def)
  show ?thesis by (simp add: run 1 2 profile.dec_enc [OF q(2)])
qed

lemma trust_profile_free:
  assumes nf: "no_faults w" and valid: "validate_alias al" and dir: "real_dir w (sp_contacts sp)"
    and src: "file_at w src = Some (profile_encode p)" "profile_ok P p"
    and free: "lookup_node (w_fs w) False (w_cwd w) (contact_path sp al) = Inl NotFoundKind"
    and ne: "sp_contacts sp \<noteq> []"
  shows "fst (trust_profile P sp src al w) = Ok p"
proof -
  note path = contact_path_child [OF valid, of sp]
  from trust_profile_start [OF nf valid dir src] obtain v where x: "extends w v"
    and k: "\<forall>k. fs_get (w_fs v) k = None \<longleftrightarrow> fs_get (w_fs w) k = None"
    and run: "trust_profile P sp src al w =
      bind_st (path_exists (contact_path sp al)) (\<lambda>e.
        if e then
          bind_st (read_regular_limited (contact_path sp al) 512) (\<lambda>pb.
          bind_st (lift_result (profile_parse P pb)) (\<lambda>pinned.
          if pinned = p then ret p else throw IdentityMismatch))
        else
          bind_st (write_new_private (contact_path sp al) (profile_encode p)) (\<lambda>_. ret p)) v"
    by blast
  have nfv: "no_faults v" using nf x by (simp add: no_faults_extends)
  from dir obtain l m where "lookup_node (w_fs w) False (w_cwd w) (sp_contacts sp) = Inr (l, DirNode m)"
    by (auto simp: real_dir_iff)
  then have at: "lookup_node (w_fs w) True (w_cwd w) (sp_contacts sp) = Inr (l, DirNode m)"
    by (rule lookup_node_follow) simp
  from lookup_node_extends [OF _ at, of "w_fs v"] x obtain m' where
    atv: "lookup_node (w_fs v) True (w_cwd v) (sp_contacts sp) = Inr (l, DirNode m')"
    by (auto simp: extends_def same_process_def)
  have "fs_get (w_fs w) (l @ [contact_file al]) = None"
    using lookup_node_child(2) [OF at, of False] free by (auto simp: path split: option.splits)
  with k have none: "fs_get (w_fs v) (l @ [contact_file al]) = None" by simp
  have 1: "path_exists (contact_path sp al) v = (Ok False, tick v)"
    using lookup_node_child(2) [OF atv, of True "contact_file al"] none
    by (simp add: path_exists_runs [OF nfv] path)
  have "real_dir (tick v) (parent_or_dot (contact_path sp al))"
    using real_dir_extends [OF x dir] ne by (simp add: parent_or_dot_def path real_dir_def)
  with write_new_private_runs [of "tick v" "contact_path sp al" "l @ [contact_file al]"] nfv none
    lookup_node_child(1) [OF atv, of False "contact_file al"]
  obtain u where 2: "write_new_private (contact_path sp al) (profile_encode p) (tick v) = (Ok (), u)"
    by (auto simp: path)
  show ?thesis by (simp add: run bind_st_def 1 2)
qed

section \<open>From initialisation to use\<close>

text \<open>
  A successful \<open>initialize\<close> found its three places free: a file there would still be there when
  its own place is written.
\<close>

lemma bind_over:
  assumes "bind_st m f w = (Ok x, w')" and "file_at w p = Some c" and "keeps extends m"
  shows "\<exists>y v. m w = (Ok y, v) \<and> f y v = (Ok x, w') \<and> file_at v p = Some c"
  using assms by (auto simp: bind_st_Ok_iff dest: keepsD intro: file_at_extends)

lemma initialize_fresh:
  assumes run: "initialize P sp u w = (Ok q, w')"
  shows "file_at w (sp_identity_public sp) = None" and "file_at w (sp_identity_encrypted sp) = None"
    and "file_at w u = None"
proof -
  have "\<nexists>c. file_at w p = Some c" if p: "p \<in> {sp_identity_public sp, sp_identity_encrypted sp, u}" for p
  proof
    assume "\<exists>c. file_at w p = Some c"
    then obtain c where c: "file_at w p = Some c" by blast
    from run p show False
      unfolding initialize_def
      apply (simp split: if_splits)
      apply (drule bind_over [OF _ c], simp add: keeps_looks_extends, elim exE conjE)
      apply (drule (1) bind_over, simp add: keeps_looks_extends, elim exE conjE)+
      apply (simp only: case_prod_beta)
      apply (drule (1) bind_over, simp add: keeps_looks_extends, elim exE conjE)+
      apply (auto dest: write_new_private_file_at(2) simp: bind_st_Ok_iff attempt_def split: prod.splits elim!: case_sumE)
      done
  qed
  then show "file_at w (sp_identity_public sp) = None" "file_at w (sp_identity_encrypted sp) = None"
    "file_at w u = None" by auto
qed

lemma initialize_load:
  assumes laws: "hash_law P" "dh_law P" "sign_law P" "aead_law P"
    and run: "initialize P sp u w = (Ok profile, w1)"
    and later: "\<And>q c. file_at w1 q = Some c \<Longrightarrow> \<not> is_blob c \<Longrightarrow> file_at w2 q = Some c"
    and nf: "no_faults w2"
  shows "\<exists>secrets w3. load_identity P sp u w2 = (Ok (secrets, profile), w3) \<and> secrets_ok secrets"
proof -
  from initialize_Ok [OF run] obtain key s encrypted wa wb where
    k: "length key = 32" and s: "secrets_ok s" "profile = secrets_profile P s"
    and e: "encrypt_private_identity P s key wa = (Ok encrypted, wb)"
    and f: "file_at w1 u = Some (encode_unlock_key key)"
      "file_at w1 (sp_identity_public sp) = Some (profile_encode profile)"
      "file_at w1 (sp_identity_encrypted sp) = Some encrypted" by blast
  have d: "length encrypted = PRIVATE_FILE_MAX_LEN" "decrypt_private_identity P encrypted key = Ok s"
    using encrypt_private_identity_Ok [OF laws(4) s(1) k e] by auto
  have ok: "profile_ok P (secrets_profile P s)" using laws(1-3) s(1) by (rule secrets_profile_ok)
  have "\<not> is_blob (encode_unlock_key key)" "\<not> is_blob encrypted" "\<not> is_blob (profile_encode profile)"
    using k d(1) profile_not_blob [OF ok] length_encode_unlock_key [OF k] s(2)
    by (simp_all add: is_blob_def protocol_consts)
  then have "file_at w2 u = Some (encode_unlock_key key)"
    "file_at w2 (sp_identity_public sp) = Some (profile_encode (secrets_profile P s))"
    "file_at w2 (sp_identity_encrypted sp) = Some encrypted"
    using f later s(2) by auto
  with load_identity_runs [OF nf k] d ok s show ?thesis by (fastforce simp: protocol_consts)
qed

text \<open>The public identity, too, is written once: by \<open>initialize\<close>, and read by \<open>export_profile\<close>.\<close>

definition public_identity ::
  "primitives \<Rightarrow> state_paths \<Rightarrow> world \<Rightarrow> unit \<Rightarrow> public_profile option" where
  "public_identity P sp w _ =
     (case file_at w (sp_identity_public sp) of
        None \<Rightarrow> None
      | Some c \<Rightarrow> (case profile_parse P c of Inl _ \<Rightarrow> None | Inr p \<Rightarrow> Some p))"

lemma public_identity_iff:
  "public_identity P sp w k = Some p \<longleftrightarrow>
     profile_ok P p \<and> file_at w (sp_identity_public sp) = Some (profile_encode p)"
proof (cases "file_at w (sp_identity_public sp)")
  case (Some c)
  then show ?thesis
    using profile.dec_Ok_iff [of P c p] by (cases "profile_parse P c") (auto simp: public_identity_def)
qed (simp add: public_identity_def)

definition puts_identity ::
  "primitives \<Rightarrow> state_paths \<Rightarrow> unit \<Rightarrow> public_profile \<Rightarrow> world \<Rightarrow> world \<Rightarrow> bool" where
  "puts_identity P sp _ p w w' \<longleftrightarrow> profile_ok P p \<and> (\<exists>u. initialize P sp u w = (Ok p, w'))"

definition gets_identity ::
  "primitives \<Rightarrow> state_paths \<Rightarrow> unit \<Rightarrow> public_profile \<Rightarrow> world \<Rightarrow> world \<Rightarrow> bool" where
  "gets_identity P sp _ p w w' \<longleftrightarrow> export_profile P sp w = (Ok p, w')"

interpretation identities: write_once "spares is_blob" "public_identity P sp" "puts_identity P sp"
  "gets_identity P sp" no_faults for P sp
proof
  show "public_identity P sp w' k = Some v"
    if "spares is_blob w w'" "public_identity P sp w k = Some v" for w w' k v
    using that file_at_spares profile_not_blob by (fastforce simp: public_identity_iff)
  show "spares is_blob w w' \<and> public_identity P sp w' k = Some v" if "puts_identity P sp k v w w'"
    for k v w w'
    using that initialize_Ok [of P sp _ w v w']
    by (auto simp: puts_identity_def public_identity_iff intro: extends_spares keepsD [OF keeps_initialize])
  show "spares is_blob w w' \<and> public_identity P sp w k = Some v" if "gets_identity P sp k v w w'"
    for k v w w'
    using that export_profile_Ok [of P sp w v w']
    by (auto simp: gets_identity_def public_identity_iff
        intro!: extends_spares looks_extends keepsD [OF keeps_reads(1)])
  show "\<exists>w'. gets_identity P sp k v w w'" if "no_faults w" "public_identity P sp w k = Some v" for w k v
    using export_profile_runs [OF that(1), of P v sp] that(2)
    by (auto simp: gets_identity_def public_identity_iff)
qed

section \<open>Consuming a blob\<close>

lemma consume_blob_Ok:
  assumes "consume_blob p w = (Ok u, w')"
  shows "\<exists>l m c. lookup_node (w_fs w) False (w_cwd w) p = Inr (l, FileNode m c) \<and>
    w_fs w' = fs_del l (w_fs w) \<and> w_cwd w' = w_cwd w"
  using assms
  by (auto simp: consume_blob_def ensure_regular_file_def bind_st_Ok_iff call_Ok_iffs
      elim!: is_file_node.elims split: if_splits)

lemma consume_blob_fs:
  assumes "consume_blob p w = (r, w')"
  shows "w_fs w' = w_fs w \<or> (\<exists>l m c. lookup_node (w_fs w) False (w_cwd w) p = Inr (l, FileNode m c) \<and>
    w_fs w' = fs_del l (w_fs w))" and "same_process w w'"
  using assms
  by (auto simp: consume_blob_def ensure_regular_file_def bind_st_def symlink_metadata_def os_query_def
      os_call_def remove_file_def fs_unlink_def same_process_def split: option.splits sum.splits
      prod.splits if_splits elim!: is_file_node.elims)

text \<open>Consuming a file that holds a blob spares everything else.\<close>

lemma consume_blob_spares:
  assumes run: "consume_blob p w = (r, w')" and at: "file_at w p = Some c" and "B c"
  shows "spares B w w'"
proof -
  from at obtain l m where l: "lookup_node (w_fs w) False (w_cwd w) p = Inr (l, FileNode m c)"
    by (auto simp: file_at_iff)
  with consume_blob_fs(1) [OF run] have "w_fs w' = w_fs w \<or> w_fs w' = fs_del l (w_fs w)" by auto
  moreover have "fs_get (w_fs w) l = Some (FileNode m c)" using l by (simp add: lookup_node_Inr_iff)
  ultimately have "fs_spares B (w_fs w) (w_fs w')"
    using fs_spares_del assms(3) by (auto simp: fs_extends_spares)
  with consume_blob_fs(2) [OF run] show ?thesis by (simp add: spares_def)
qed

end
