(* ===== verification/Console.thy ===== *)
theory Console
  imports World
begin

text \<open>
  The terminal and the standard streams as the commands use them (\<open>std::io\<close>, \<open>std::env\<close>,
  \<open>std::process\<close> and \<open>fs::create_dir_all\<close>), and \<open>str::trim\<close>. \<open>eprintln!\<close> and
  \<open>println!\<close>, which panic when their stream cannot be written, are taken to succeed.
\<close>

section \<open>Calls that change more than the tree\<close>

definition os_step :: "(world \<Rightarrow> (io_kind + 'a) \<times> world) \<Rightarrow> 'a io" where
  "os_step f w =
     (case w_faults w (w_calls w) of
        Some (k, _) \<Rightarrow> (Err (Io k), tick w)
      | None \<Rightarrow> (case f w of (r, w') \<Rightarrow> (map_sum Io id r, tick w')))"

text \<open>The program's own streams.\<close>

definition stdin_read_to_end :: "nat \<Rightarrow> bytes io" where
  "stdin_read_to_end limit = os_step (\<lambda>w.
     (Inr (take limit (w_stdin w)), w\<lparr>w_stdin := drop limit (w_stdin w)\<rparr>))"

definition stdout_write_all :: "bytes \<Rightarrow> unit io" where
  "stdout_write_all bs w =
     (case w_faults w (w_calls w) of
        Some (k, n) \<Rightarrow> (Err (Io k), (tick w)\<lparr>w_stdout := w_stdout w @ take n bs\<rparr>)
      | None \<Rightarrow> (Ok (), (tick w)\<lparr>w_stdout := w_stdout w @ bs\<rparr>))"

definition stdout_flush :: "unit io" where
  "stdout_flush = os_step (\<lambda>w. (Inr (), w))"

definition stderr_flush :: "unit io" where
  "stderr_flush = os_step (\<lambda>w. (Inr (), w))"

definition eprint :: "bytes \<Rightarrow> unit io" where
  "eprint bs w = (Ok (), w\<lparr>w_stderr := w_stderr w @ bs\<rparr>)"

definition eprintln :: "bytes \<Rightarrow> unit io" where
  "eprintln bs = eprint (bs @ [newline])"

definition println :: "bytes \<Rightarrow> unit io" where
  "println bs w = (Ok (), w\<lparr>w_stdout := w_stdout w @ bs @ [newline]\<rparr>)"

definition show_path :: "path \<Rightarrow> bytes io" where
  "show_path p = get_state (\<lambda>w. w_show_path w p)"

text \<open>Decimal numbers, as \<open>{}\<close> prints them.\<close>

fun show_nat :: "nat \<Rightarrow> bytes" where
  "show_nat n = (if n < 10 then [0x30 + word_of_nat n]
     else show_nat (n div 10) @ [0x30 + word_of_nat (n mod 10)])"

declare show_nat.simps [simp del]

text \<open>\<open>env::current_dir\<close>, and \<open>fs::create_dir_all\<close> as the library defines it.\<close>

definition current_dir :: "path io" where
  "current_dir = os_query (\<lambda>w. Inr (RootDir # map Normal (w_cwd w)))"

function create_dir_all :: "path \<Rightarrow> unit io" where
  "create_dir_all p =
     (if p = [] then ret ()
      else
        bind_st (attempt (create_dir p)) (\<lambda>r.
        if r = Ok () then ret ()
        else if r = Err (Io NotFoundKind) then
          (case path_parent p of
             None \<Rightarrow> throw (Io OtherKind)
           | Some q \<Rightarrow>
               bind_st (create_dir_all q) (\<lambda>_.
               bind_st (attempt (create_dir p)) (\<lambda>r.
               if r = Ok () then ret ()
               else bind_st (path_is_dir p) (\<lambda>d. if d then ret () else lift_result r))))
        else bind_st (path_is_dir p) (\<lambda>d. if d then ret () else lift_result r)))"
  by auto
termination
  by (relation "measure length") (auto simp: path_parent_def split: if_splits)

declare create_dir_all.simps [simp del]

section \<open>The terminal device\<close>

definition split_line :: "bytes \<Rightarrow> bytes \<times> bytes" where
  "split_line s =
     (let line = takeWhile (\<lambda>b. b \<noteq> newline) s
      in if line = s then (s, []) else (line @ [newline], drop (length line + 1) s))"

lemma split_line_join: "split_line s = (line, rest) \<Longrightarrow> line @ rest = s"
proof (induction s arbitrary: line)
  case (Cons b s)
  then show ?case
    by (cases "b = newline") (auto simp: split_line_def Let_def split: if_splits)
qed (simp add: split_line_def)

lemma split_line_progress: "s \<noteq> [] \<Longrightarrow> split_line s = (line, rest) \<Longrightarrow> length rest < length s"
  by (auto simp: split_line_def Let_def split: if_splits)

lemma split_line_length: "split_line s = (line, rest) \<Longrightarrow> length rest \<le> length s"
  by (cases "s = []") (auto simp: split_line_def dest: split_line_progress)

definition tty_open :: "unit io" where
  "tty_open = os_step (\<lambda>w. (case w_tty w of None \<Rightarrow> Inl NotFoundKind | Some _ \<Rightarrow> Inr (), w))"

text \<open>\<open>BufRead::read_line\<close> into a \<open>String\<close>: nothing at the end of the input.\<close>

definition tty_read_line :: "bytes io" where
  "tty_read_line = os_step (\<lambda>w.
     case w_tty w of
       None \<Rightarrow> (Inl OtherKind, w)
     | Some s \<Rightarrow>
         (case split_line s of (line, rest) \<Rightarrow>
            (if utf8_valid line then Inr line else Inl InvalidDataKind,
             w\<lparr>w_tty := Some rest\<rparr>)))"

definition tty_read_exact :: "nat \<Rightarrow> bytes io" where
  "tty_read_exact n = os_step (\<lambda>w.
     case w_tty w of
       None \<Rightarrow> (Inl OtherKind, w)
     | Some s \<Rightarrow>
         if length s < n then (Inl UnexpectedEofKind, w\<lparr>w_tty := Some []\<rparr>)
         else (Inr (take n s), w\<lparr>w_tty := Some (drop n s)\<rparr>))"

text \<open>Running \<open>/bin/stty\<close>: whether it succeeded, and what it printed.\<close>

definition run_stty :: "bytes list \<Rightarrow> (bool \<times> bytes) io" where
  "run_stty arguments = os_step (\<lambda>w.
     case w_stty w arguments (w_tty_mode w) of (out, m) \<Rightarrow> (Inr out, w\<lparr>w_tty_mode := m\<rparr>))"

section \<open>White space\<close>

text \<open>The encodings of the characters with the property White_Space, which \<open>trim\<close> removes.\<close>

definition white_space :: "bytes list" where
  "white_space =
     [[0x09], [0x0A], [0x0B], [0x0C], [0x0D], [0x20], [0xC2, 0x85], [0xC2, 0xA0],
      [0xE1, 0x9A, 0x80],
      [0xE2, 0x80, 0x80], [0xE2, 0x80, 0x81], [0xE2, 0x80, 0x82], [0xE2, 0x80, 0x83],
      [0xE2, 0x80, 0x84], [0xE2, 0x80, 0x85], [0xE2, 0x80, 0x86], [0xE2, 0x80, 0x87],
      [0xE2, 0x80, 0x88], [0xE2, 0x80, 0x89], [0xE2, 0x80, 0x8A], [0xE2, 0x80, 0xA8],
      [0xE2, 0x80, 0xA9], [0xE2, 0x80, 0xAF], [0xE2, 0x81, 0x9F], [0xE3, 0x80, 0x80]]"

definition starting_white :: "bytes \<Rightarrow> nat" where
  "starting_white s = (case find (\<lambda>c. prefix c s) white_space of None \<Rightarrow> 0 | Some c \<Rightarrow> length c)"

lemma starting_white_bound: "starting_white s \<le> length s"
  by (auto simp: starting_white_def find_Some_iff dest: prefix_length_le split: option.splits)

function trim_start :: "bytes \<Rightarrow> bytes" where
  "trim_start s = (if starting_white s = 0 then s else trim_start (drop (starting_white s) s))"
  by auto
termination
proof (relation "measure length")
  fix s assume "starting_white s \<noteq> 0"
  with starting_white_bound [of s] show "(drop (starting_white s) s, s) \<in> measure length" by auto
qed simp

definition ending_white :: "bytes \<Rightarrow> nat" where
  "ending_white s = (case find (\<lambda>c. suffix c s) white_space of None \<Rightarrow> 0 | Some c \<Rightarrow> length c)"

lemma ending_white_bound: "ending_white s \<le> length s"
  by (auto simp: ending_white_def find_Some_iff dest: suffix_length_le split: option.splits)

function trim_end :: "bytes \<Rightarrow> bytes" where
  "trim_end s =
     (if ending_white s = 0 then s else trim_end (take (length s - ending_white s) s))"
  by auto
termination
proof (relation "measure length")
  fix s assume "ending_white s \<noteq> 0"
  with ending_white_bound [of s]
  show "(take (length s - ending_white s) s, s) \<in> measure length" by auto
qed simp

definition trim :: "bytes \<Rightarrow> bytes" where
  "trim s = trim_end (trim_start s)"

declare trim_start.simps [simp del] trim_end.simps [simp del]

section \<open>What these calls leave alone\<close>

lemma keeps_os_step:
  assumes "\<And>w r w'. f w = (r, w') \<Longrightarrow> looks w w'"
  shows "keeps looks (os_step f)"
proof (rule keepsI)
  fix w r w'
  assume run: "os_step f w = (r, w')"
  obtain q v where v: "f w = (q, v)" by fastforce
  with assms have "looks w v" by blast
  moreover have "looks u (tick u)" for u by (simp add: looks_def same_process_def)
  ultimately show "looks w w'"
    using run v by (auto simp: os_step_def intro: looking.frame_trans split: option.splits)
qed

text \<open>Everything but writing to the standard output only looks.\<close>

lemma keeps_streams [simp]:
  "keeps looks (stdin_read_to_end n)" "keeps looks stdout_flush" "keeps looks stderr_flush"
  "keeps looks tty_open" "keeps looks tty_read_line" "keeps looks (tty_read_exact k)"
  "keeps looks (run_stty as)"
  unfolding stdin_read_to_end_def stdout_flush_def stderr_flush_def tty_open_def tty_read_line_def
    tty_read_exact_def run_stty_def
  by (rule keeps_os_step;
      auto simp: looks_def same_process_def split: option.splits prod.splits if_splits;
      simp add: tty_left_def split_line_length)+

lemma keeps_eprint [simp]: "keeps looks (eprint bs)" "keeps looks (eprintln bs)"
  by (auto intro!: keepsI simp: eprintln_def eprint_def looks_def same_process_def)

lemma keeps_writes [simp]: "keeps extends (stdout_write_all bs)" "keeps extends (println bs)"
  by (auto intro!: keepsI simp: stdout_write_all_def println_def extends_def same_process_def
      split: option.splits)

lemma keeps_show_path [simp]: "keeps looks (show_path p)"
  by (simp add: show_path_def)

lemma keeps_current_dir [simp]: "keeps looks current_dir"
  by (simp add: current_dir_def)

lemma keeps_create_dir_all [simp]: "keeps extends (create_dir_all p)"
proof (induction p rule: measure_induct_rule [of length])
  case (less p)
  have q: "keeps extends (create_dir_all q)" if "p \<noteq> []" "path_parent p = Some q" for q
    using that by (intro less) (auto simp: path_parent_def split: if_splits)
  note rules = extending.keeps_rules extending.keeps_ret extending.keeps_throw
    extending.keeps_lift keeps_creating keeps_looks_extends keeps_path_is_dir
  show ?case
  proof (cases "p = []")
    case True
    show ?thesis by (subst create_dir_all.simps, subst if_P [OF True]) (rule extending.keeps_ret)
  next
    case False
    show ?thesis
    proof (cases "path_parent p")
      case None
      show ?thesis
        by (subst create_dir_all.simps, subst if_not_P [OF False], subst None, subst option.case)
          (intro rules)
    next
      case (Some d)
      show ?thesis
        by (subst create_dir_all.simps, subst if_not_P [OF False], subst Some, subst option.case)
          (intro rules q [OF False Some])
    qed
  qed
qed

lemma stdout_write_all_Ok_iff:
  "stdout_write_all bs w = (Ok u, w') \<longleftrightarrow>
     w_faults w (w_calls w) = None \<and> w' = (tick w)\<lparr>w_stdout := w_stdout w @ bs\<rparr>"
  by (auto simp: stdout_write_all_def split: option.splits)

lemma eprintln_Ok_iff [simp]:
  "eprintln bs w = (r, w') \<longleftrightarrow> r = Ok () \<and> w' = w\<lparr>w_stderr := w_stderr w @ bs @ [newline]\<rparr>"
  by (auto simp: eprintln_def eprint_def)

end
