(* ===== verification/Cli.thy ===== *)
theory Cli
  imports Store_Facts Console
begin

text \<open>
  The commands of \<open>src/src/cli.rs\<close>: their options, where the unlock key comes from, and what
  each does with the state directory, the standard streams and the files it is given.
  Arguments are the bytes of \<open>OsString\<close>.
\<close>

section \<open>Options\<close>

definition USAGE :: string where
  "USAGE =
     ''Usage:'' @ [CHR 0x0A] @
     ''  sealed                         Interactive terminal'' @ [CHR 0x0A] @
     ''  sealed init [--unlock-key PATH]'' @ [CHR 0x0A] @
     ''  sealed identity export'' @ [CHR 0x0A] @
     ''  sealed trust PROFILE [--name NAME]'' @ [CHR 0x0A] @
     ''  sealed seal CONTACT [--unlock-key PATH] [--output BLOB]'' @ [CHR 0x0A] @
     ''  sealed open BLOB [--unlock-key PATH] [--keep]''"

record options =
  op_positionals :: "bytes list"
  op_unlock :: "path option"
  op_alias :: "bytes option"
  op_output :: "path option"

definition no_options :: options where
  "no_options = \<lparr>op_positionals = [], op_unlock = None, op_alias = None, op_output = None\<rparr>"

fun parse_options_loop :: "bool \<Rightarrow> bool \<Rightarrow> options \<Rightarrow> bytes list \<Rightarrow> options result" where
  "parse_options_loop allow_name allow_output st [] = Ok st"
| "parse_options_loop allow_name allow_output st (arg # rest) =
     (if to_str arg = Some (ascii ''--unlock-key'') then
        (case rest of
           [] \<Rightarrow> Err (Usage USAGE)
         | v # rest' \<Rightarrow>
             parse_options_loop allow_name allow_output
               (st\<lparr>op_unlock := Some (path_of_bytes v)\<rparr>) rest')
      else if to_str arg = Some (ascii ''--name'') \<and> allow_name then
        (case rest of
           [] \<Rightarrow> Err (Usage USAGE)
         | v # rest' \<Rightarrow>
             (case to_str v of
                None \<Rightarrow> Err (Usage USAGE)
              | Some name \<Rightarrow>
                  parse_options_loop allow_name allow_output (st\<lparr>op_alias := Some name\<rparr>) rest'))
      else if to_str arg = Some (ascii ''--output'') \<and> allow_output then
        (case rest of
           [] \<Rightarrow> Err (Usage USAGE)
         | v # rest' \<Rightarrow>
             parse_options_loop allow_name allow_output
               (st\<lparr>op_output := Some (path_of_bytes v)\<rparr>) rest')
      else if (case to_str arg of Some value \<Rightarrow> prefix [hyphen] value | None \<Rightarrow> False)
      then Err (Usage USAGE)
      else
        parse_options_loop allow_name allow_output
          (st\<lparr>op_positionals := op_positionals st @ [arg]\<rparr>) rest)"

definition parse_options :: "bytes list \<Rightarrow> bool \<Rightarrow> bool \<Rightarrow> options result" where
  "parse_options args allow_name allow_output =
     parse_options_loop allow_name allow_output no_options args"

text \<open>The loop of \<open>parse_open_options\<close> that takes \<open>--keep\<close> out.\<close>

fun filter_keep :: "bytes list \<Rightarrow> bytes list \<Rightarrow> bool \<Rightarrow> (bytes list \<times> bool) result" where
  "filter_keep [] filtered keep = Ok (filtered, keep)"
| "filter_keep (arg # args) filtered keep =
     (if arg = ascii ''--keep'' then
        (if keep then Err (Usage USAGE) else filter_keep args filtered True)
      else filter_keep args (filtered @ [arg]) keep)"

definition parse_open_options :: "bytes list \<Rightarrow> (options \<times> bool) result" where
  "parse_open_options args =
     and_then (filter_keep args [] False) (\<lambda>(filtered, keep).
     and_then (parse_options filtered False False) (\<lambda>opts.
     if op_output opts \<noteq> None then Err (Usage USAGE) else Ok (opts, keep)))"

section \<open>The unlock key's path\<close>

definition terminal_input :: "unit io" where
  "terminal_input = tty_open"

definition read_path_from_terminal :: "string \<Rightarrow> path io" where
  "read_path_from_terminal prompt =
     bind_st (eprint (ascii prompt)) (\<lambda>_.
     bind_st stderr_flush (\<lambda>_.
     bind_st terminal_input (\<lambda>_.
     bind_st tty_read_line (\<lambda>input.
     let trimmed = trim input in
     if trimmed = [] then throw (InvalidInput ''unlock key path cannot be empty'')
     else ret (path_of_bytes trimmed)))))"

definition resolve_unlock_path :: "path option \<Rightarrow> bool \<Rightarrow> path io" where
  "resolve_unlock_path supplied initializing =
     (case supplied of
        Some p \<Rightarrow> ret p
      | None \<Rightarrow>
          bind_st (env_var ''SEALED_UNLOCK_KEY'') (\<lambda>v.
          case v of
            Some p \<Rightarrow> ret (path_of_bytes p)
          | None \<Rightarrow>
              read_path_from_terminal
                (if initializing
                 then ''Choose a new location for the unlock key (prefer removable/offline media): ''
                 else ''Unlock key path: '')))"

section \<open>The commands\<close>

definition usage :: "'a io" where
  "usage = throw (Usage USAGE)"

definition command_init :: "primitives \<Rightarrow> state_paths \<Rightarrow> bytes list \<Rightarrow> unit io" where
  "command_init P paths args =
     bind_st (lift_result (parse_options args False False)) (\<lambda>opts.
     if op_positionals opts \<noteq> [] then usage
     else
       bind_st (resolve_unlock_path (op_unlock opts) True) (\<lambda>unlock_path.
       bind_st (eprintln (ascii ''Generating identity using the operating-system CSPRNG...'')) (\<lambda>_.
       bind_st (initialize P paths unlock_path) (\<lambda>profile.
       bind_st (eprintln (ascii ''Identity initialized.'')) (\<lambda>_.
       bind_st (eprintln (ascii ''Fingerprint: '' @ formatted_fingerprint profile)) (\<lambda>_.
       bind_st (show_path (sp_identity_encrypted paths)) (\<lambda>shown.
       bind_st (eprintln (ascii ''Encrypted identity: '' @ shown)) (\<lambda>_.
       bind_st (show_path unlock_path) (\<lambda>shown.
       bind_st (eprintln (ascii ''Unlock key: '' @ shown)) (\<lambda>_.
       bind_st (eprintln (ascii
         ''Keep the unlock key separate. Losing it makes the identity unrecoverable.'')) (\<lambda>_.
       ret ())))))))))))"

definition command_identity :: "primitives \<Rightarrow> state_paths \<Rightarrow> bytes list \<Rightarrow> unit io" where
  "command_identity P paths args =
     (if length args \<noteq> 1 \<or> args ! 0 \<noteq> ascii ''export'' then usage
      else
        bind_st (export_profile P paths) (\<lambda>profile.
        bind_st (stdout_write_all (profile_encode profile)) (\<lambda>_.
        ret ())))"

definition command_trust :: "primitives \<Rightarrow> state_paths \<Rightarrow> bytes list \<Rightarrow> unit io" where
  "command_trust P paths args =
     bind_st (lift_result (parse_options args True False)) (\<lambda>opts.
     if length (op_positionals opts) \<noteq> 1 then usage
     else
       let source = path_of_bytes (op_positionals opts ! 0) in
       bind_st (case op_alias opts of
           Some a \<Rightarrow> ret a
         | None \<Rightarrow> lift_result (ok_or
             (InvalidInput ''cannot derive a safe contact name; use --name NAME'')
             (Option.bind (Option.bind (file_stem source) to_str)
                (\<lambda>v. if validate_alias v then Some v else None)))) (\<lambda>a.
       bind_st (trust_profile P paths source a) (\<lambda>profile.
       bind_st (eprintln (ascii ''Pinned contact: '' @ a)) (\<lambda>_.
       bind_st (eprintln (ascii ''Fingerprint: '' @ formatted_fingerprint profile)) (\<lambda>_.
       bind_st (eprintln (ascii
         ''Verify this fingerprint through an independent trusted channel.'')) (\<lambda>_.
       ret ()))))))"

definition command_seal :: "primitives \<Rightarrow> state_paths \<Rightarrow> bytes list \<Rightarrow> unit io" where
  "command_seal P paths args =
     bind_st (lift_result (parse_options args False True)) (\<lambda>opts.
     if length (op_positionals opts) \<noteq> 1 then usage
     else
       bind_st (lift_result (ok_or (InvalidInput ''contact name is not valid UTF-8'')
         (to_str (op_positionals opts ! 0)))) (\<lambda>a.
       bind_st (contact_of P paths a) (\<lambda>contact.
       bind_st (resolve_unlock_path (op_unlock opts) False) (\<lambda>unlock_path.
       bind_st (load_identity P paths unlock_path) (\<lambda>(secrets, profile).
       bind_st (get_state w_stdin_tty) (\<lambda>tty.
       bind_st (when_st tty (eprintln (ascii (''Enter the letter body, then send EOF ''
         @ ''(Ctrl-D on Unix, Ctrl-Z then Enter on Windows):'')))) (\<lambda>_.
       bind_st (stdin_read_to_end (MAX_BODY_LEN + 1)) (\<lambda>body.
       if length body > MAX_BODY_LEN then
         throw (InvalidInput ''message body exceeds the 1 MiB limit'')
       else
         bind_st (seal P secrets profile (ct_profile contact) body) (\<lambda>blob.
         case op_output opts of
           Some path \<Rightarrow>
             bind_st (write_new_private path blob) (\<lambda>_.
             bind_st (show_path path) (\<lambda>shown.
             bind_st (eprintln (ascii ''Sealed '' @ show_nat (length blob) @ ascii '' bytes to ''
               @ shown @ ascii ''.'')) (\<lambda>_. ret ())))
         | None \<Rightarrow>
             bind_st (stdout_write_all blob) (\<lambda>_.
             bind_st stdout_flush (\<lambda>_.
             bind_st (eprintln (ascii ''Sealed '' @ show_nat (length blob) @ ascii '' bytes.''))
               (\<lambda>_. ret ()))))))))))))"

definition em_dash :: bytes where
  "em_dash = [0xE2, 0x80, 0x94]"

definition sender_line :: "sender_trust \<Rightarrow> bytes" where
  "sender_line trust =
     (case trust of
        Pinned a \<Rightarrow> ascii ''SENDER: PINNED ('' @ a @ ascii '')''
      | Mismatch a \<Rightarrow>
          ascii ''SENDER: MISMATCH ('' @ a @ ascii '') '' @ em_dash @ ascii '' POSSIBLE MITM''
      | Unknown \<Rightarrow>
          ascii ''SENDER: UNKNOWN '' @ em_dash @
          ascii '' signature is valid but identity is not pinned'')"

text \<open>The part of \<open>command_open\<close> that follows \<open>message::open\<close>.\<close>

definition finish_open :: "bool \<Rightarrow> path \<Rightarrow> opened_letter \<Rightarrow> unit io" where
  "finish_open keep blob_path letter =
     bind_st (eprintln (ascii ''INTEGRITY: VALID'')) (\<lambda>_.
     bind_st (eprintln (ascii ''SIGNATURE: VALID'')) (\<lambda>_.
     bind_st (eprintln (ascii ''RECIPIENT: VALID'')) (\<lambda>_.
     bind_st (eprintln (sender_line (ol_sender_trust letter))) (\<lambda>_.
     bind_st (eprintln (ascii ''SENDER FINGERPRINT: ''
       @ formatted_fingerprint (ol_sender letter))) (\<lambda>_.
     bind_st (stdout_write_all (ol_body letter)) (\<lambda>_.
     bind_st stdout_flush (\<lambda>_.
     if \<not> keep then
       bind_st (consume_blob blob_path) (\<lambda>_.
       bind_st (eprintln (ascii ''CIPHERTEXT: CONSUMED (logical deletion only)'')) (\<lambda>_.
       ret ()))
     else ret ())))))))"

definition command_open :: "primitives \<Rightarrow> state_paths \<Rightarrow> bytes list \<Rightarrow> unit io" where
  "command_open P paths args =
     bind_st (lift_result (parse_open_options args)) (\<lambda>(opts, keep).
     if length (op_positionals opts) \<noteq> 1 then usage
     else
       let blob_path = path_of_bytes (op_positionals opts ! 0) in
       bind_st (resolve_unlock_path (op_unlock opts) False) (\<lambda>unlock_path.
       bind_st (load_identity P paths unlock_path) (\<lambda>(secrets, profile).
       bind_st (all_contacts P paths) (\<lambda>contacts.
       bind_st (map_err_st (\<lambda>_. CannotOpen) (read_blob blob_path)) (\<lambda>blob.
       bind_st (lift_result (open_letter P secrets profile contacts blob)) (\<lambda>letter.
       finish_open keep blob_path letter))))))"

section \<open>What the commands leave alone\<close>

lemma keeps_resolve_unlock_path [simp]: "keeps looks (resolve_unlock_path p b)"
  unfolding resolve_unlock_path_def read_path_from_terminal_def terminal_input_def Let_def
  by (intro looking.keeps_rules) auto

lemma keeps_usage [simp]: "keeps looks usage"
  by (simp add: usage_def)

lemma keeps_small_commands [simp]:
  "keeps extends (command_init P sp args)" "keeps extends (command_identity P sp args)"
  "keeps extends (command_trust P sp args)" "keeps extends (command_seal P sp args)"
  unfolding command_init_def command_identity_def command_trust_def command_seal_def Let_def
  by (intro extending.keeps_rules; auto intro: keeps_looks_extends)+

text \<open>
  Opening may remove the blob. A file known to hold a blob stays known while everything
  only extends the tree, so a computation can be followed from there.
\<close>

definition keeps_from :: "('s \<Rightarrow> bool) \<Rightarrow> ('s \<Rightarrow> 's \<Rightarrow> bool) \<Rightarrow> ('s, 'a) st \<Rightarrow> bool" where
  "keeps_from A R m \<longleftrightarrow> (\<forall>s. A s \<longrightarrow> R s (snd (m s)))"

lemma keeps_from_keeps: "keeps R m \<Longrightarrow> keeps_from A R m"
  by (simp add: keeps_def keeps_from_def)

context frame
begin

text \<open>A step after which \<open>B\<close> holds, then a computation that keeps \<open>R\<close> from \<open>B\<close>.\<close>

lemma keeps_from_bind:
  assumes "keeps R m" and "\<And>s x s'. A s \<Longrightarrow> m s = (Inr x, s') \<Longrightarrow> B x s'"
    and "\<And>x. keeps_from (B x) R (f x)"
  shows "keeps_from A R (bind_st m f)"
  unfolding keeps_from_def
proof (intro allI impI)
  fix s
  assume s: "A s"
  obtain q t where m: "m s = (q, t)" by fastforce
  with assms(1) have st: "R s t" by (rule keepsD)
  show "R s (snd (bind_st m f s))"
  proof (cases q)
    case (Inl e)
    with m st show ?thesis by simp
  next
    case (Inr x)
    with s m assms(2) have "B x t" by blast
    with assms(3) have "R t (snd (f x t))" by (simp add: keeps_from_def)
    with st m Inr frame_trans show ?thesis by fastforce
  qed
qed

lemma keeps_from_start: "keeps_from (\<lambda>_. True) R m \<Longrightarrow> keeps R m"
  by (simp add: keeps_from_def keeps_def)

end

lemma keeps_from_file:
  assumes "keeps extends m" and "\<And>x. keeps_from (\<lambda>s. file_at s p = Some c) (spares B) (f x)"
  shows "keeps_from (\<lambda>s. file_at s p = Some c) (spares B) (bind_st m f)"
  by (rule sparing.keeps_from_bind [where B = "\<lambda>_ s. file_at s p = Some c"])
    (use assms in \<open>auto intro: keeps_spares file_at_extends keepsD\<close>)

lemma keeps_from_lift:
  "(\<And>x. r = Inr x \<Longrightarrow> keeps_from A (spares B) (f x)) \<Longrightarrow>
     keeps_from A (spares B) (bind_st (lift_result r) f)"
  by (cases r) (auto simp: keeps_from_def sparing.frame_refl)

lemma read_blob_Ok:
  assumes "read_blob p s = (Ok b, s')"
  shows "file_at s p = Some b" and "file_at s' p = Some b" and "looks s s'"
proof -
  show "file_at s p = Some b"
    using assms read_regular_limited_Ok(1) by (simp add: read_blob_def)
  moreover show "looks s s'" using assms by (rule keepsD [OF keeps_read_blob])
  ultimately show "file_at s' p = Some b" by (simp add: file_at_looks)
qed

lemma open_letter_is_blob: "open_letter P s p cs blob = Ok letter \<Longrightarrow> is_blob blob"
  by (erule open_letter_OkE) (simp add: valid_blob_len_def is_blob_def)

lemma keeps_consume_last:
  assumes "is_blob c" and "\<And>x. keeps looks (f x)"
  shows "keeps_from (\<lambda>s. file_at s p = Some c) (spares is_blob) (bind_st (consume_blob p) f)"
  unfolding keeps_from_def
proof (intro allI impI)
  fix s
  assume s: "file_at s p = Some c"
  obtain r t where t: "consume_blob p s = (r, t)" by fastforce
  then have "spares is_blob s t" using s assms(1) by (rule consume_blob_spares)
  moreover have "spares is_blob t (snd (f x t))" for x
    using assms(2) by (simp add: keeps_def looks_extends extends_spares)
  ultimately show "spares is_blob s (snd (bind_st (consume_blob p) f s))"
    using t by (cases r) (auto intro: sparing.frame_trans)
qed

lemma keeps_finish_open:
  assumes "is_blob c"
  shows "keeps_from (\<lambda>s. file_at s p = Some c) (spares is_blob) (finish_open keep p letter)"
proof -
  have "keeps_from (\<lambda>s. file_at s p = Some c) (spares is_blob)
    (if \<not> keep then bind_st (consume_blob p) (\<lambda>_. bind_st (eprintln m) (\<lambda>_. ret ())) else ret ())"
    for m
  proof (cases keep)
    case False
    then show ?thesis
      by (simp only: if_True not_False_eq_True)
        (intro keeps_consume_last assms looking.keeps_rules; simp)
  qed (simp add: keeps_from_keeps)
  then show ?thesis
    unfolding finish_open_def
    by (intro keeps_from_file) (simp_all add: keeps_looks_extends)
qed

lemma keeps_read_and_open:
  "keeps (spares is_blob) (bind_st (map_err_st (\<lambda>_. CannotOpen) (read_blob p)) (\<lambda>blob.
     bind_st (lift_result (open_letter P s profile cs blob)) (\<lambda>letter. finish_open keep p letter)))"
  by (rule sparing.keeps_from_start, rule sparing.keeps_from_bind
        [where B = "\<lambda>blob s. file_at s p = Some blob"])
    (auto intro!: sparing.keeps_map_err keeps_spares keeps_looks_extends keeps_from_lift
      keeps_finish_open dest: open_letter_is_blob read_blob_Ok(2))

lemma keeps_command_open [simp]: "keeps (spares is_blob) (command_open P sp args)"
  unfolding command_open_def Let_def
  by (intro keeps_read_and_open sparing.keeps_rules; simp add: keeps_spares keeps_looks_extends)

section \<open>What opening does\<close>

lemma consume_blob_Err: "consume_blob p w = (Err e, w') \<Longrightarrow> w_fs w' = w_fs w"
  by (auto simp: consume_blob_def ensure_regular_file_def bind_st_def symlink_metadata_def os_query_def
      os_call_def remove_file_def fs_unlink_def split: option.splits sum.splits prod.splits if_splits)

text \<open>
  The tree is changed only at the very end, when the whole letter has been written out, and
  then by removing the blob alone.
\<close>

lemma finish_open_outcome:
  assumes "finish_open keep p letter w = (r, w')"
  shows "w_fs w' = w_fs w \<and> (r = Ok () \<longrightarrow> keep \<and> w_stdout w' = w_stdout w @ ol_body letter) \<or>
    r = Ok () \<and> \<not> keep \<and> w_stdout w' = w_stdout w @ ol_body letter \<and>
    (\<exists>l m c. lookup_node (w_fs w) False (w_cwd w) p = Inr (l, FileNode m c) \<and>
       w_fs w' = fs_del l (w_fs w))"
proof -
  let ?last = "if \<not> keep then bind_st (consume_blob p) (\<lambda>_. bind_st (eprintln
      (ascii ''CIPHERTEXT: CONSUMED (logical deletion only)'')) (\<lambda>_. ret ())) else ret ()"
  obtain err where err: "bind_st (stdout_write_all (ol_body letter)) (\<lambda>_. bind_st stdout_flush
      (\<lambda>_. ?last)) (w\<lparr>w_stderr := err\<rparr>) = (r, w')"
    using assms by (auto simp: finish_open_def)
  define w1 where "w1 = w\<lparr>w_stderr := err\<rparr>"
  with err have run: "bind_st (stdout_write_all (ol_body letter)) (\<lambda>_. bind_st stdout_flush
      (\<lambda>_. ?last)) w1 = (r, w')" by simp
  have w1: "w_fs w1 = w_fs w" "w_cwd w1 = w_cwd w" "w_stdout w1 = w_stdout w"
    by (simp_all add: w1_def)
  obtain r2 w2 where 2: "stdout_write_all (ol_body letter) w1 = (r2, w2)" by fastforce
  then have fs2: "w_fs w2 = w_fs w" "w_cwd w2 = w_cwd w"
    using w1 by (auto simp: stdout_write_all_def split: option.splits)
  obtain r3 w3 where 3: "stdout_flush w2 = (r3, w3)" by fastforce
  from looks_fs [OF keeps_streams(2) 3] fs2 have fs3: "w_fs w3 = w_fs w" "w_cwd w3 = w_cwd w" by auto
  show ?thesis
  proof (cases "r2 = Ok () \<and> r3 = Ok ()")
    case False
    with run 2 3 fs2 fs3 show ?thesis by (cases r2; cases r3) auto
  next
    case True
    with 2 w1 have "w_stdout w2 = w_stdout w @ ol_body letter"
      by (simp add: stdout_write_all_Ok_iff)
    moreover have "looks w2 w3" using 3 by (rule keepsD [OF keeps_streams(2)])
    ultimately have out: "w_stdout w3 = w_stdout w @ ol_body letter" by (simp add: looks_def)
    from True run 2 3 have last: "?last w3 = (r, w')" by simp
    show ?thesis
    proof (cases keep)
      case True
      with last out fs3 show ?thesis by simp
    next
      case False
      obtain r4 w4 where 4: "consume_blob p w3 = (r4, w4)" by fastforce
      show ?thesis
      proof (cases r4)
        case (Inl e)
        with False last 4 consume_blob_Err [of p w3 e w4] fs3 show ?thesis by auto
      next
        case (Inr u)
        from consume_blob_Ok 4 Inr obtain l m c where
          "lookup_node (w_fs w) False (w_cwd w) p = Inr (l, FileNode m c)"
          "w_fs w4 = fs_del l (w_fs w)" using fs3 by metis
        moreover have "w_stdout w4 = w_stdout w3"
          using 4 Inr by (auto simp: consume_blob_def ensure_regular_file_def bind_st_Ok_iff call_Ok_iffs
            split: if_splits)
        ultimately show ?thesis using False last 4 Inr out by auto
      qed
    qed
  qed
qed

text \<open>
  A sequence that starts with steps that only look: either one of them ends it, and then
  nothing has changed, or the rest runs on a world that looks the same.
\<close>

lemma bind_looksE:
  assumes "bind_st m f w = (r, w')" and "looks u w" and "keeps looks m"
    and go: "\<not> (looks u w' \<and> (\<forall>x. r \<noteq> Ok x))"
  obtains x v where "m w = (Ok x, v)" "looks u v" "f x v = (r, w')"
proof -
  obtain q v where m: "m w = (q, v)" by fastforce
  with assms(3) have "looks w v" by (rule keepsD)
  with assms(2) have uv: "looks u v" by (rule looking.frame_trans)
  show thesis
  proof (cases q)
    case (Inl e)
    with assms(1) m uv go show thesis by auto
  next
    case (Inr x)
    with assms(1) m uv that show thesis by simp
  qed
qed

text \<open>What a successful end of \<open>open\<close> has shown and written.\<close>

definition verdict_text :: "opened_letter \<Rightarrow> bytes" where
  "verdict_text letter =
     ascii ''RECIPIENT: VALID'' @ [newline] @ sender_line (ol_sender_trust letter) @ [newline]
     @ ascii ''SENDER FINGERPRINT: '' @ formatted_fingerprint (ol_sender letter) @ [newline]"

lemma finish_open_shows:
  assumes "finish_open keep p letter w = (Ok (), w')"
  shows "w_stdout w' = w_stdout w @ ol_body letter \<and>
    (\<exists>before after. w_stderr w' = before @ verdict_text letter @ after)"
proof -
  define before where "before = w_stderr w @ ascii ''INTEGRITY: VALID'' @ [newline] @
    ascii ''SIGNATURE: VALID'' @ [newline]"
  let ?last = "if \<not> keep then bind_st (consume_blob p) (\<lambda>_. bind_st (eprintln
      (ascii ''CIPHERTEXT: CONSUMED (logical deletion only)'')) (\<lambda>_. ret ())) else ret ()"
  have "bind_st (stdout_write_all (ol_body letter)) (\<lambda>_. bind_st stdout_flush (\<lambda>_. ?last))
      (w\<lparr>w_stderr := before @ verdict_text letter\<rparr>) = (Ok (), w')"
    using assms by (simp add: finish_open_def before_def verdict_text_def)
  then obtain v where v: "?last v = (Ok (), w')" "w_stderr v = before @ verdict_text letter"
    by (auto simp: bind_st_Ok_iff stdout_write_all_def stdout_flush_def os_step_def split: option.splits)
  have "w_stderr u = w_stderr v" if "consume_blob p v = (Ok (), u)" for u
    using that by (auto simp: consume_blob_def ensure_regular_file_def bind_st_Ok_iff call_Ok_iffs
      split: if_splits)
  with v have "\<exists>after. w_stderr w' = before @ verdict_text letter @ after"
    by (auto simp: bind_st_Ok_iff eprintln_def eprint_def split: if_splits)
  with finish_open_outcome [OF assms] show ?thesis by auto
qed

lemma command_open_split:
  assumes run: "command_open P sp args w = (r, w')" and go: "\<not> (looks w w' \<and> r \<noteq> Ok ())"
  shows "\<exists>opts keep u secrets profile contacts blob letter w1 w2 w3 w4.
    parse_open_options args = Ok (opts, keep) \<and> length (op_positionals opts) = 1 \<and>
    resolve_unlock_path (op_unlock opts) False w = (Ok u, w1) \<and> looks w w1 \<and>
    load_identity P sp u w1 = (Ok (secrets, profile), w2) \<and> looks w w2 \<and>
    all_contacts P sp w2 = (Ok contacts, w3) \<and> looks w w4 \<and>
    file_at w (path_of_bytes (op_positionals opts ! 0)) = Some blob \<and>
    open_letter P secrets profile contacts blob = Ok letter \<and>
    finish_open keep (path_of_bytes (op_positionals opts ! 0)) letter w4 = (r, w')"
proof -
  have stop: "\<not> (looks w w' \<and> (\<forall>x. r \<noteq> Ok x))" using go by auto
  note E = bind_looksE [OF _ _ _ stop]
  obtain opts keep where o: "parse_open_options args = Ok (opts, keep)"
    and 0: "(if length (op_positionals opts) \<noteq> 1 then usage
      else
        bind_st (resolve_unlock_path (op_unlock opts) False) (\<lambda>unlock_path.
        bind_st (load_identity P sp unlock_path) (\<lambda>(secrets, profile).
        bind_st (all_contacts P sp) (\<lambda>contacts.
        bind_st (map_err_st (\<lambda>_. CannotOpen)
          (read_blob (path_of_bytes (op_positionals opts ! 0)))) (\<lambda>blob.
        bind_st (lift_result (open_letter P secrets profile contacts blob)) (\<lambda>letter.
        finish_open keep (path_of_bytes (op_positionals opts ! 0)) letter)))))) w = (r, w')"
    using run stop unfolding command_open_def Let_def
    by (cases "parse_open_options args") (auto simp: looking.frame_refl)
  let ?p = "path_of_bytes (op_positionals opts ! 0)"
  have len: "length (op_positionals opts) = 1"
    using 0 stop by (auto simp: usage_def looking.frame_refl split: if_splits)
  with 0 obtain u w1 where 1: "resolve_unlock_path (op_unlock opts) False w = (Ok u, w1)" "looks w w1"
    and r1: "bind_st (load_identity P sp u) (\<lambda>(secrets, profile).
        bind_st (all_contacts P sp) (\<lambda>contacts.
        bind_st (map_err_st (\<lambda>_. CannotOpen) (read_blob ?p)) (\<lambda>blob.
        bind_st (lift_result (open_letter P secrets profile contacts blob)) (\<lambda>letter.
        finish_open keep ?p letter)))) w1 = (r, w')"
    by (auto elim: E [OF _ _ keeps_resolve_unlock_path] simp: looking.frame_refl)
  from E [OF r1 1(2) keeps_reads(2)] obtain secrets profile w2 where
    2: "load_identity P sp u w1 = (Ok (secrets, profile), w2)" "looks w w2"
    and r2: "bind_st (all_contacts P sp) (\<lambda>contacts.
        bind_st (map_err_st (\<lambda>_. CannotOpen) (read_blob ?p)) (\<lambda>blob.
        bind_st (lift_result (open_letter P secrets profile contacts blob)) (\<lambda>letter.
        finish_open keep ?p letter))) w2 = (r, w')" by auto
  from E [OF r2 2(2) keeps_reads(4)] obtain contacts w3 where
    3: "all_contacts P sp w2 = (Ok contacts, w3)" "looks w w3"
    and r3: "bind_st (map_err_st (\<lambda>_. CannotOpen) (read_blob ?p)) (\<lambda>blob.
        bind_st (lift_result (open_letter P secrets profile contacts blob)) (\<lambda>letter.
        finish_open keep ?p letter)) w3 = (r, w')" by auto
  from E [OF r3 3(2) looking.keeps_map_err [OF keeps_read_blob]] obtain blob w4 where
    4: "read_blob ?p w3 = (Ok blob, w4)" "looks w w4"
    and r4: "bind_st (lift_result (open_letter P secrets profile contacts blob)) (\<lambda>letter.
        finish_open keep ?p letter) w4 = (r, w')" by auto
  from E [OF r4 4(2) looking.keeps_lift] obtain letter where
    5: "open_letter P secrets profile contacts blob = Ok letter"
    and r5: "finish_open keep ?p letter w4 = (r, w')" by auto
  have "file_at w ?p = Some blob" using read_blob_Ok(2) [OF 4(1)] file_at_looks [OF 4(2)] by simp
  with o len 1 2 3(1) 4(2) 5 r5 show ?thesis by blast
qed

section \<open>The grammar of the options\<close>

text \<open>
  The arguments as a list of items: what may be written, how, and what it sets. A later item
  replaces an earlier one of its kind.
\<close>

datatype arg_item = Positional bytes | UnlockKey bytes | Name bytes | Output bytes

fun item_ok :: "bool \<Rightarrow> bool \<Rightarrow> arg_item \<Rightarrow> bool" where
  "item_ok allow_name allow_output (Positional a) = (\<not> (utf8_valid a \<and> prefix [hyphen] a))"
| "item_ok allow_name allow_output (UnlockKey v) = True"
| "item_ok allow_name allow_output (Name v) = (allow_name \<and> utf8_valid v)"
| "item_ok allow_name allow_output (Output v) = allow_output"

fun item_args :: "arg_item \<Rightarrow> bytes list" where
  "item_args (Positional a) = [a]"
| "item_args (UnlockKey v) = [ascii ''--unlock-key'', v]"
| "item_args (Name v) = [ascii ''--name'', v]"
| "item_args (Output v) = [ascii ''--output'', v]"

fun item_set :: "arg_item \<Rightarrow> options \<Rightarrow> options" where
  "item_set (Positional a) st = st\<lparr>op_positionals := op_positionals st @ [a]\<rparr>"
| "item_set (UnlockKey v) st = st\<lparr>op_unlock := Some (path_of_bytes v)\<rparr>"
| "item_set (Name v) st = st\<lparr>op_alias := Some v\<rparr>"
| "item_set (Output v) st = st\<lparr>op_output := Some (path_of_bytes v)\<rparr>"

lemma option_names:
  "to_str (ascii ''--unlock-key'') = Some (ascii ''--unlock-key'')"
  "to_str (ascii ''--name'') = Some (ascii ''--name'')"
  "to_str (ascii ''--output'') = Some (ascii ''--output'')"
proof -
  have "utf8_valid (ascii ''--unlock-key'')" "utf8_valid (ascii ''--name'')" "utf8_valid (ascii ''--output'')"
    by (rule utf8_valid_ascii, simp add: ascii_def)+
  then show
    "to_str (ascii ''--unlock-key'') = Some (ascii ''--unlock-key'')"
    "to_str (ascii ''--name'') = Some (ascii ''--name'')"
    "to_str (ascii ''--output'') = Some (ascii ''--output'')" by (simp_all add: to_str_def)
qed

lemma option_names_hyphen:
  "prefix [hyphen] (ascii ''--unlock-key'')" "prefix [hyphen] (ascii ''--name'')"
  "prefix [hyphen] (ascii ''--output'')"
  by (simp_all add: ascii_def byte_class_defs)

lemma option_names_differ:
  "ascii ''--name'' \<noteq> ascii ''--unlock-key''" "ascii ''--output'' \<noteq> ascii ''--unlock-key''"
  "ascii ''--output'' \<noteq> ascii ''--name''"
  by (simp_all add: ascii_inject)

lemma positional_no_name:
  assumes "\<not> (utf8_valid a \<and> prefix [hyphen] a)"
  shows "to_str a \<noteq> Some (ascii ''--unlock-key'')" "to_str a \<noteq> Some (ascii ''--name'')"
    "to_str a \<noteq> Some (ascii ''--output'')"
    "\<not> (case to_str a of Some value \<Rightarrow> prefix [hyphen] value | None \<Rightarrow> False)"
  using assms option_names_hyphen by (auto simp only: to_str_def option.inject option.case split: if_splits)

lemma parse_item:
  assumes "item_ok an ao x"
  shows "parse_options_loop an ao st (item_args x @ rest) = parse_options_loop an ao (item_set x st) rest"
proof (cases x)
  case (Positional a)
  with assms have "\<not> (utf8_valid a \<and> prefix [hyphen] a)" by simp
  from positional_no_name [OF this] Positional show ?thesis by simp
next
  case (Name v)
  with assms have "an" "to_str v = Some v" by (simp_all add: to_str_def)
  with Name option_names_differ show ?thesis by (simp add: option_names)
qed (use assms option_names_differ in \<open>simp_all add: option_names\<close>)

lemma parse_items:
  "list_all (item_ok an ao) items \<Longrightarrow>
     parse_options_loop an ao st (concat (map item_args items)) = Ok (fold item_set items st)"
  by (induction items arbitrary: st) (simp_all add: parse_item)

text \<open>Conversely every run of the loop takes items off the arguments, or ends with the usage.\<close>

lemma parse_options_step:
  assumes "\<nexists>x rest. item_ok an ao x \<and> args = item_args x @ rest" and "args \<noteq> []"
  shows "parse_options_loop an ao st args = Err (Usage USAGE)"
proof -
  from assms(2) obtain a rest where args: "args = a # rest" by (cases args) auto
  have k: "a = v" if "to_str a = Some v" for v using that by (simp add: to_str_def split: if_splits)
  have no: False if "item_ok an ao x" "a # rest = item_args x @ r" for x r
    using assms(1) args that by blast
  have "to_str a = Some a \<and> prefix [hyphen] a"
    using no [of "Positional a" rest] by (auto simp: to_str_def)
  moreover have "rest = []" if "to_str a = Some (ascii ''--unlock-key'')"
    using no [of "UnlockKey (hd rest)" "tl rest"] k [OF that] by (cases rest) auto
  moreover have "rest = [] \<or> to_str (hd rest) = None" if "to_str a = Some (ascii ''--name'')" "an"
    using no [of "Name (hd rest)" "tl rest"] k [OF that(1)] that(2)
    by (cases rest) (auto simp: to_str_def)
  moreover have "rest = []" if "to_str a = Some (ascii ''--output'')" "ao"
    using no [of "Output (hd rest)" "tl rest"] k [OF that(1)] that(2) by (cases rest) auto
  ultimately show ?thesis
    unfolding args using option_names_differ by (cases rest) (auto split: option.splits)
qed

lemma parse_options_loop_items:
  "(\<exists>items. list_all (item_ok an ao) items \<and> args = concat (map item_args items)) \<or>
     parse_options_loop an ao st args = Err (Usage USAGE)"
proof (induction "length args" arbitrary: args st rule: less_induct)
  case less
  show ?case
  proof (cases "args = [] \<or> parse_options_loop an ao st args = Err (Usage USAGE)")
    case True
    then show ?thesis by (auto intro: exI [of _ "[]"])
  next
    case False
    with parse_options_step [of an ao args st] obtain x rest where
      x: "item_ok an ao x" "args = item_args x @ rest" by blast
    then have "length rest < length args" by (cases x) auto
    from less [OF this, of "item_set x st"] show ?thesis
    proof
      assume "\<exists>items. list_all (item_ok an ao) items \<and> rest = concat (map item_args items)"
      then obtain items where "list_all (item_ok an ao) items" "rest = concat (map item_args items)" by blast
      with x have "list_all (item_ok an ao) (x # items)" "args = concat (map item_args (x # items))"
        by simp_all
      then show ?thesis by blast
    qed (simp add: x parse_item)
  qed
qed

text \<open>C30: The arguments that are accepted are exactly the sequences, in any order, of the options
  allowed to the command with their values and of arguments that do not begin with a hyphen,
  and what is set is what the last option of each kind says. Anything else is the usage error.\<close>

theorem parse_options_exact:
  "(parse_options args an ao = Ok opts \<longleftrightarrow>
      (\<exists>items. list_all (item_ok an ao) items \<and> args = concat (map item_args items) \<and>
         opts = fold item_set items no_options)) \<and>
   (parse_options args an ao = Err (Usage USAGE) \<longleftrightarrow> (\<nexists>o'. parse_options args an ao = Ok o'))"
proof -
  note cases = parse_options_loop_items [of an ao args no_options]
  show ?thesis
    using cases parse_items [of an ao _ no_options] by (fastforce simp: parse_options_def)
qed

end
