(* ===== verification/Interactive.thy ===== *)
theory Interactive
  imports Cli
begin

text \<open>
  The interactive terminal of \<open>src/src/cli.rs\<close>: the style, the prompts, the picker in raw
  mode with its fallback, the wizards and the menu loop. Text outside ASCII is given by its
  UTF-8 bytes.
\<close>

section \<open>Style\<close>

abbreviation escape :: byte where "escape \<equiv> 0x1B"

definition check_mark :: bytes where "check_mark = [0xE2, 0x9C, 0x93]"
definition cross_mark :: bytes where "cross_mark = [0xC3, 0x97]"
definition bullet :: bytes where "bullet = [0xE2, 0x80, 0xA2]"
definition circle :: bytes where "circle = [0xE2, 0x97, 0x8B]"
definition right_arrow :: bytes where "right_arrow = [0xE2, 0x86, 0x92]"
definition angle_quote :: bytes where "angle_quote = [0xE2, 0x80, 0xBA]"
definition ellipsis :: bytes where "ellipsis = [0xE2, 0x80, 0xA6]"
definition middle_dot :: bytes where "middle_dot = [0xC2, 0xB7]"
definition horizontal :: "nat \<Rightarrow> bytes" where "horizontal n = concat (replicate n [0xE2, 0x94, 0x80])"

record style =
  ts_color :: bool

definition style_detect :: "style io" where
  "style_detect =
     bind_st (get_state w_stderr_tty) (\<lambda>tty.
     if tty then bind_st (env_var ''NO_COLOR'') (\<lambda>v. ret \<lparr>ts_color = (v = None)\<rparr>)
     else ret \<lparr>ts_color = False\<rparr>)"

definition paint :: "style \<Rightarrow> string \<Rightarrow> bytes \<Rightarrow> bytes" where
  "paint st code txt =
     (if ts_color st then
        [escape] @ ascii ''['' @ ascii code @ ascii ''m'' @ txt @ [escape] @ ascii ''[0m''
      else txt)"

definition bold :: "style \<Rightarrow> bytes \<Rightarrow> bytes" where "bold st = paint st ''1''"
definition dim :: "style \<Rightarrow> bytes \<Rightarrow> bytes" where "dim st = paint st ''2''"
definition success :: "style \<Rightarrow> bytes" where "success st = paint st ''32'' check_mark"
definition warning :: "style \<Rightarrow> bytes" where "warning st = paint st ''33'' (ascii ''!'')"
definition failure :: "style \<Rightarrow> bytes" where "failure st = paint st ''31'' cross_mark"
definition highlight :: "style \<Rightarrow> bytes \<Rightarrow> bytes" where "highlight st = paint st ''36;1''"

definition rule_line :: "style \<Rightarrow> bytes" where
  "rule_line st = dim st (horizontal 42)"

section \<open>Prompts\<close>

definition read_terminal_line :: "bytes io" where
  "read_terminal_line = bind_st terminal_input (\<lambda>_. tty_read_line)"

definition prompt :: "bytes \<Rightarrow> bytes option \<Rightarrow> bytes io" where
  "prompt label dflt =
     bind_st (case dflt of
         Some v \<Rightarrow> eprint (label @ ascii '' ['' @ v @ ascii '']: '')
       | None \<Rightarrow> eprint (label @ ascii '': '')) (\<lambda>_.
     bind_st stderr_flush (\<lambda>_.
     bind_st read_terminal_line (\<lambda>input.
     let trimmed = trim input in
     if trimmed = [] then lift_result (ok_or (InvalidInput ''input cannot be empty'') dflt)
     else ret trimmed)))"

definition home_directory :: "path io" where
  "home_directory =
     bind_st (env_var ''HOME'') (\<lambda>home.
     bind_st (case home of Some h \<Rightarrow> ret (Some h) | None \<Rightarrow> env_var ''USERPROFILE'') (\<lambda>h.
     lift_result (ok_or (NotFound ''home directory is unavailable'')
       (map_option path_of_bytes h))))"

definition expand_home_path :: "bytes \<Rightarrow> path io" where
  "expand_home_path input =
     (if input = ascii ''~'' then home_directory
      else
        (case strip_prefix (ascii ''~/'') input of
           Some remainder \<Rightarrow>
             bind_st home_directory (\<lambda>home. ret (path_join home (path_of_bytes remainder)))
         | None \<Rightarrow> ret (path_of_bytes input)))"

definition prompt_path :: "bytes \<Rightarrow> bytes option \<Rightarrow> path io" where
  "prompt_path label dflt = bind_st (prompt label dflt) expand_home_path"

definition prompt_unlock_path :: "bool \<Rightarrow> path io" where
  "prompt_unlock_path initializing =
     bind_st (env_var ''SEALED_UNLOCK_KEY'') (\<lambda>v.
     case v of
       Some p \<Rightarrow> ret (path_of_bytes p)
     | None \<Rightarrow>
         prompt_path (ascii (if initializing then ''New unlock-key file path''
                             else ''Unlock-key file path'')) None)"

definition prompt_yes_no :: "bytes \<Rightarrow> bool \<Rightarrow> bool io" where
  "prompt_yes_no label default_yes =
     (let dflt = ascii (if default_yes then ''Y/n'' else ''y/N'') in
      bind_st (prompt label (Some dflt)) (\<lambda>answer.
      if answer = dflt then ret default_yes
      else
        let a = to_ascii_lowercase answer in
        if a = ascii ''y'' \<or> a = ascii ''yes'' then ret True
        else if a = ascii ''n'' \<or> a = ascii ''no'' then ret False
        else throw (InvalidInput ''answer with y or n'')))"

definition wait_for_enter :: "bytes \<Rightarrow> unit io" where
  "wait_for_enter label =
     bind_st (eprint (label @ ascii ''...'')) (\<lambda>_.
     bind_st stderr_flush (\<lambda>_.
     bind_st read_terminal_line (\<lambda>_. ret ())))"

section \<open>The terminal in raw mode\<close>

definition stty :: "bytes list \<Rightarrow> bytes io" where
  "stty arguments =
     bind_st (run_stty arguments) (\<lambda>(ok, out).
     if \<not> ok then throw (InvalidInput ''cannot configure terminal key input'')
     else if utf8_valid out then ret (trim out)
     else throw (InvalidInput ''terminal returned invalid settings''))"

definition restore_stty :: "bytes \<Rightarrow> unit io" where
  "restore_stty saved_mode = bind_st (attempt (run_stty [saved_mode])) (\<lambda>_. ret ())"

definition raw_arguments :: "bytes list" where
  "raw_arguments = map ascii [''-icanon'', ''min'', ''1'', ''time'', ''0'', ''-echo'', ''-isig'']"

text \<open>\<open>RawTerminal::enter\<close>; the value is the saved mode that \<open>drop\<close> restores.\<close>

definition raw_enter :: "bytes io" where
  "raw_enter =
     bind_st tty_open (\<lambda>_.
     bind_st (stty [ascii ''-g'']) (\<lambda>saved_mode.
     bind_st (attempt (stty raw_arguments)) (\<lambda>r.
     case r of
       Inl e \<Rightarrow> bind_st (restore_stty saved_mode) (\<lambda>_. throw e)
     | Inr _ \<Rightarrow> ret saved_mode)))"

datatype picker_key = KeyUp | KeyDown | KeySelect | KeyCancel | KeyIgnore

text \<open>The \<open>match\<close> on the first byte of a key, and the reading of it.\<close>

definition decode_key :: "byte \<Rightarrow> picker_key io" where
  "decode_key b =
     (if b = 0x0D \<or> b = 0x0A then ret KeySelect
      else if b = 0x03 then ret KeyCancel
      else if b = 0x6B then ret KeyUp
      else if b = 0x6A then ret KeyDown
      else if b = escape then
        bind_st (tty_read_exact 2) (\<lambda>sequence.
        if sequence = [0x5B, 0x41] \<or> sequence = [0x4F, 0x41] then ret KeyUp
        else if sequence = [0x5B, 0x42] \<or> sequence = [0x4F, 0x42] then ret KeyDown
        else ret KeyIgnore)
      else ret KeyIgnore)"

definition read_picker_key :: "picker_key io" where
  "read_picker_key = bind_st (tty_read_exact 1) (\<lambda>first. decode_key (first ! 0))"

text \<open>The lines of the picker, from number \<open>i\<close> on.\<close>

fun draw_choices :: "style \<Rightarrow> nat \<Rightarrow> nat \<Rightarrow> bytes list \<Rightarrow> unit io" where
  "draw_choices st selected i [] = ret ()"
| "draw_choices st selected i (choice # choices) =
     bind_st (eprint ([0x0D, escape] @ ascii ''[2K'')) (\<lambda>_.
     bind_st (if i = selected then
         eprintln (ascii ''  '' @ highlight st angle_quote @ ascii '' '' @ highlight st choice)
       else eprintln (ascii ''    '' @ choice)) (\<lambda>_.
     draw_choices st selected (i + 1) choices))"

definition draw_picker :: "bytes list \<Rightarrow> nat \<Rightarrow> style \<Rightarrow> bool \<Rightarrow> unit io" where
  "draw_picker choices selected st redraw =
     bind_st (when_st redraw (eprint ([escape] @ ascii ''['' @ show_nat (length choices) @ ascii ''A'')))
       (\<lambda>_.
     bind_st (draw_choices st selected 0 choices) (\<lambda>_.
     bind_st stderr_flush (\<lambda>_. ret ())))"

definition move_up :: "nat \<Rightarrow> nat \<Rightarrow> nat" where
  "move_up n selected = (case checked_sub selected 1 of Some s \<Rightarrow> s | None \<Rightarrow> n - 1)"

definition move_down :: "nat \<Rightarrow> nat \<Rightarrow> nat" where
  "move_down n selected = (selected + 1) mod n"

text \<open>A key uses up some of the input, so the loop over keys ends.\<close>

lemma keeps_read_picker_key [simp]: "keeps looks (decode_key b)" "keeps looks read_picker_key"
proof -
  show d: "keeps looks (decode_key b)" for b
    unfolding decode_key_def by (intro looking.keeps_rules) auto
  show "keeps looks read_picker_key"
    unfolding read_picker_key_def by (intro looking.keeps_rules d) simp
qed

lemma tty_read_exact_Ok:
  "tty_read_exact n w = (Ok bs, w') \<Longrightarrow> length bs = n \<and> tty_left w' + n = tty_left w"
  by (auto simp: tty_read_exact_def os_step_def tty_left_def
      split: option.splits prod.splits if_splits)

lemma looks_tty_left: "looks w w' \<Longrightarrow> tty_left w' \<le> tty_left w"
  by (simp add: looks_def same_process_def)

lemma read_picker_key_progress:
  assumes "read_picker_key w = (Ok k, w')"
  shows "tty_left w' < tty_left w"
proof -
  from assms obtain first v where 1: "tty_read_exact 1 w = (Ok first, v)"
    and "decode_key (first ! 0) v = (Ok k, w')"
    unfolding read_picker_key_def by (elim bind_st_OkE)
  then have "tty_left w' \<le> tty_left v"
    by (intro looks_tty_left keepsD [OF keeps_read_picker_key(1)])
  with tty_read_exact_Ok [OF 1] show ?thesis by simp
qed

lemma keeps_draw_picker [simp]: "keeps looks (draw_picker choices selected st redraw)"
proof -
  have "keeps looks (draw_choices st selected i choices)" for i
  proof (induction choices arbitrary: i)
    case (Cons c cs)
    then show ?case unfolding draw_choices.simps by (intro looking.keeps_rules) auto
  qed (simp only: draw_choices.simps looking.keeps_ret)
  then show ?thesis
    unfolding draw_picker_def by (intro looking.keeps_rules) auto
qed

text \<open>The loop over keys in \<open>choose_from_list\<close>.\<close>

function picker_loop :: "style \<Rightarrow> bytes list \<Rightarrow> nat \<Rightarrow> world \<Rightarrow> nat option result \<times> world" where
  "picker_loop st choices selected w =
     (case read_picker_key w of
        (Inl e, w1) \<Rightarrow> (Err e, w1)
      | (Inr key, w1) \<Rightarrow>
          if key = KeySelect then bind_st (eprintln []) (\<lambda>_. ret (Some selected)) w1
          else if key = KeyCancel then bind_st (eprintln []) (\<lambda>_. ret None) w1
          else if key = KeyIgnore then picker_loop st choices selected w1
          else
            let selected' = (if key = KeyUp then move_up (length choices) selected
                             else move_down (length choices) selected)
            in (case draw_picker choices selected' st True w1 of
                  (Inl e, w2) \<Rightarrow> (Err e, w2)
                | (Inr _, w2) \<Rightarrow> picker_loop st choices selected' w2))"
  by auto
termination
proof (relation "measure (\<lambda>(st, choices, selected, w). tty_left w)")
  fix st choices selected w r w1 key
  assume "(r, w1) = read_picker_key w" and "r = Inr key"
  then show "((st, choices, selected, w1), st, choices, selected, w)
    \<in> measure (\<lambda>(st, choices, selected, w). tty_left w)"
    using read_picker_key_progress [of w key w1] by simp
next
  fix st choices selected w r w1 key x r' w2 u
  assume k: "(r, w1) = read_picker_key w" "r = Inr key"
    and d: "(r', w2) = draw_picker choices x st True w1"
  have "looks w1 w2" by (rule keepsD [OF keeps_draw_picker d [symmetric]])
  with looks_tty_left [of w1 w2] read_picker_key_progress [of w key w1] k
  show "((st, choices, x, w2), st, choices, selected, w)
    \<in> measure (\<lambda>(st, choices, selected, w). tty_left w)" by simp
qed simp

declare picker_loop.simps [simp del]

section \<open>Choosing from a list\<close>

text \<open>\<open>str::parse::<usize>\<close>\<close>

definition parse_usize :: "bytes \<Rightarrow> nat option" where
  "parse_usize s =
     (let digits = (if prefix [0x2B] s then drop 1 s else s);
          n = foldl (\<lambda>acc d. 10 * acc + unat (d - 0x30)) 0 digits
      in if digits = [] \<or> \<not> list_all is_ascii_digit digits then None
         else if n \<le> usize_max then Some n else None)"

fun list_choices :: "nat \<Rightarrow> bytes list \<Rightarrow> unit io" where
  "list_choices i [] = ret ()"
| "list_choices i (choice # choices) =
     bind_st (eprintln (ascii ''  '' @ show_nat (i + 1) @ ascii ''  '' @ choice)) (\<lambda>_.
     list_choices (i + 1) choices)"

text \<open>The numbered list, for a terminal that cannot be put into raw mode.\<close>

definition choose_by_number :: "bytes \<Rightarrow> bytes list \<Rightarrow> style \<Rightarrow> nat option io" where
  "choose_by_number title choices st =
     bind_st (eprintln ([newline] @ bold st title)) (\<lambda>_.
     bind_st (eprintln (dim st
       (ascii ''Arrow navigation is unavailable; enter a number.''))) (\<lambda>_.
     bind_st (list_choices 0 choices) (\<lambda>_.
     bind_st (prompt (ascii ''Selection'') None) (\<lambda>selected.
     lift_result (ok_or (InvalidInput ''invalid selection'')
       (map_option Some (Option.bind (Option.bind (parse_usize selected) (\<lambda>n. checked_sub n 1))
          (\<lambda>i. if i < length choices then Some i else None))))))))"

definition picker_help :: bytes where
  "picker_help = ascii ''Use '' @ [0xE2, 0x86, 0x91] @ ascii ''/'' @ [0xE2, 0x86, 0x93]
     @ ascii '' and Enter. Ctrl-C cancels.''"

text \<open>The block that holds the raw terminal; \<open>drop\<close> restores the mode on every way out of it.\<close>

definition raw_picker :: "bytes \<Rightarrow> bytes list \<Rightarrow> style \<Rightarrow> nat option io" where
  "raw_picker title choices st =
     bind_st (eprintln ([newline] @ bold st title)) (\<lambda>_.
     bind_st (eprintln (dim st picker_help)) (\<lambda>_.
     bind_st (draw_picker choices 0 st False) (\<lambda>_.
     picker_loop st choices 0)))"

definition choose_from_list :: "bytes \<Rightarrow> bytes list \<Rightarrow> style \<Rightarrow> nat option io" where
  "choose_from_list title choices st =
     (if choices = [] then throw (InvalidInput ''there is nothing to select'')
      else
        bind_st (attempt raw_enter) (\<lambda>terminal.
        case terminal of
          Inr saved_mode \<Rightarrow>
            bind_st (attempt (raw_picker title choices st)) (\<lambda>r.
            bind_st (restore_stty saved_mode) (\<lambda>_. lift_result r))
        | Inl _ \<Rightarrow> choose_by_number title choices st))"

lemma keeps_prompt [simp]: "keeps looks (prompt label dflt)"
  unfolding prompt_def read_terminal_line_def terminal_input_def Let_def
  by (intro looking.keeps_rules) auto

lemma keeps_path_prompts [simp]:
  "keeps looks home_directory" "keeps looks (expand_home_path input)"
  "keeps looks (prompt_path label dflt)" "keeps looks (prompt_unlock_path b)"
  "keeps looks (prompt_yes_no label c)" "keeps looks (wait_for_enter label)"
proof -
  show h: "keeps looks home_directory"
    unfolding home_directory_def by (intro looking.keeps_rules) auto
  show e: "keeps looks (expand_home_path i)" for i
    unfolding expand_home_path_def by (intro looking.keeps_rules h) auto
  show p: "keeps looks (prompt_path l d)" for l d
    unfolding prompt_path_def by (intro looking.keeps_rules e) simp
  show "keeps looks (prompt_unlock_path b)"
    unfolding prompt_unlock_path_def by (intro looking.keeps_rules p) auto
  show "keeps looks (prompt_yes_no label c)"
    unfolding prompt_yes_no_def Let_def by (intro looking.keeps_rules) auto
  show "keeps looks (wait_for_enter label)"
    unfolding wait_for_enter_def read_terminal_line_def terminal_input_def
    by (intro looking.keeps_rules) auto
qed

lemma keeps_stty [simp]:
  "keeps looks (stty args)" "keeps looks (restore_stty m)" "keeps looks raw_enter"
proof -
  show s: "keeps looks (stty a)" for a
    unfolding stty_def by (intro looking.keeps_rules) auto
  show r: "keeps looks (restore_stty m)" for m
    unfolding restore_stty_def by (intro looking.keeps_rules) auto
  show "keeps looks raw_enter"
    unfolding raw_enter_def by (intro looking.keeps_rules s r) auto
qed

text \<open>The selection stays in range, and a loop that ends with a choice has used up input.\<close>

lemma move_bounds: "s < n \<Longrightarrow> move_up n s < n" "s < n \<Longrightarrow> move_down n s < n"
  by (auto simp: move_up_def move_down_def checked_sub_def)

lemma eprintln_ret:
  "bind_st (eprintln bs) (\<lambda>_. ret x) w = (r, w') \<Longrightarrow> r = Ok x \<and> looks w w'"
  by (auto simp: looks_def same_process_def)

lemma picker_loop_result:
  assumes "picker_loop st choices selected w = (r, w')"
  shows "looks w w' \<and> (\<forall>x. r = Ok x \<longrightarrow> tty_left w' < tty_left w) \<and>
    (selected < length choices \<longrightarrow> (\<forall>i. r = Ok (Some i) \<longrightarrow> i < length choices))"
  using assms
proof (induction st choices selected w arbitrary: r w' rule: picker_loop.induct)
  case (1 st choices selected w)
  obtain q w1 where k: "read_picker_key w = (q, w1)" by fastforce
  then have l1: "looks w w1" by (rule keepsD [OF keeps_read_picker_key(2)])
  show ?case
  proof (cases q)
    case (Inl e)
    with 1(3) k l1 show ?thesis by (auto simp: picker_loop.simps)
  next
    case (Inr key)
    with k have p1: "tty_left w1 < tty_left w" by (simp add: read_picker_key_progress)
    let ?s = "if key = KeyUp then move_up (length choices) selected
      else move_down (length choices) selected"
    consider "key = KeySelect \<or> key = KeyCancel" | "key = KeyIgnore" | (move) "key \<noteq> KeySelect"
      "key \<noteq> KeyCancel" "key \<noteq> KeyIgnore" by blast
    then show ?thesis
    proof cases
      case 1
      with \<open>picker_loop st choices selected w = (r, w')\<close> k Inr obtain x where
        x: "bind_st (eprintln []) (\<lambda>_. ret x) w1 = (r, w')" "x = Some selected \<or> x = None"
        by (fastforce simp: picker_loop.simps)
      from eprintln_ret [OF x(1)] have "r = Ok x" "looks w1 w'" by auto
      with x(2) l1 p1 looks_tty_left [of w1 w'] show ?thesis
        by (auto intro: looking.frame_trans)
    next
      case 2
      with \<open>picker_loop st choices selected w = (r, w')\<close> k Inr have
        "picker_loop st choices selected w1 = (r, w')" by (simp add: picker_loop.simps [of st choices selected w])
      from "1.IH"(1) [OF k [symmetric] Inr _ _ 2 this] 2 l1 p1 show ?thesis
        by (auto intro: looking.frame_trans)
    next
      case move
      obtain q2 w2 where d: "draw_picker choices ?s st True w1 = (q2, w2)" by fastforce
      then have l2: "looks w1 w2" by (rule keepsD [OF keeps_draw_picker])
      show ?thesis
      proof (cases q2)
        case (Inl e)
        with \<open>picker_loop st choices selected w = (r, w')\<close> k Inr move d l1 l2 show ?thesis
          by (auto simp: picker_loop.simps [of st choices selected w] Let_def
              intro: looking.frame_trans)
      next
        case i2: (Inr u)
        with \<open>picker_loop st choices selected w = (r, w')\<close> k Inr move d have
          "picker_loop st choices ?s w2 = (r, w')"
          by (simp add: picker_loop.simps [of st choices selected w] Let_def)
        from "1.IH"(2) [OF k [symmetric] Inr move refl d [symmetric] i2 this]
        have ih: "looks w2 w' \<and> (\<forall>x. r = Ok x \<longrightarrow> tty_left w' < tty_left w2) \<and>
          (?s < length choices \<longrightarrow> (\<forall>i. r = Ok (Some i) \<longrightarrow> i < length choices))" .
        have "selected < length choices \<longrightarrow> ?s < length choices"
          by (simp add: move_bounds)
        moreover have "looks w w'"
          by (rule looking.frame_trans [OF l1 looking.frame_trans [OF l2 conjunct1 [OF ih]]])
        moreover have "tty_left w2 < tty_left w" using p1 looks_tty_left [OF l2] by simp
        ultimately show ?thesis using ih order.strict_trans by blast
      qed
    qed
  qed
qed

lemma keeps_picker_loop [simp]: "keeps looks (picker_loop st choices selected)"
  by (rule keepsI) (simp add: picker_loop_result)

lemma keeps_choose_from_list [simp]:
  "keeps looks (choose_by_number title choices st)" "keeps looks (choose_from_list title choices st)"
proof -
  have l: "keeps looks (list_choices i cs)" for i cs
  proof (induction cs arbitrary: i)
    case (Cons c cs)
    then show ?case unfolding list_choices.simps by (intro looking.keeps_rules) auto
  qed (simp only: list_choices.simps looking.keeps_ret)
  show n: "keeps looks (choose_by_number title choices st)"
    unfolding choose_by_number_def by (intro looking.keeps_rules l) auto
  show "keeps looks (choose_from_list title choices st)"
    unfolding choose_from_list_def raw_picker_def by (intro looking.keeps_rules n) auto
qed

section \<open>The wizards\<close>

definition project_local_unlock_path :: "path io" where
  "project_local_unlock_path =
     bind_st (env_var ''SEALED_PROJECT_DIR'') (\<lambda>v.
     bind_st (case v of Some p \<Rightarrow> ret (path_of_bytes p) | None \<Rightarrow> current_dir) (\<lambda>project_dir.
     ret (path_join (path_join project_dir (path_of_bytes (ascii ''.sealed-local'')))
       (path_of_bytes (ascii ''unlock.key'')))))"

text \<open>The directory of the new unlock key, created when the user agrees to it.\<close>

definition prepare_unlock_parent :: "style \<Rightarrow> path \<Rightarrow> path \<Rightarrow> unit io" where
  "prepare_unlock_parent st unlock_path default_unlock_path =
     (let parent = parent_or_dot unlock_path in
      bind_st (path_exists parent) (\<lambda>e.
      if e then ret ()
      else if unlock_path = default_unlock_path then
        bind_st (create_dir_all parent) (\<lambda>_.
        bind_st (show_path parent) (\<lambda>shown.
        eprintln (dim st right_arrow @ ascii '' Created local test-key directory: '' @ shown)))
      else
        bind_st (show_path parent) (\<lambda>shown.
        bind_st (prompt_yes_no (ascii ''Directory '' @ shown @ ascii '' does not exist. Create it?'') True)
          (\<lambda>create.
        if \<not> create then throw (InvalidInput ''identity creation cancelled'')
        else create_dir_all parent))))"

definition wizard_init :: "primitives \<Rightarrow> state_paths \<Rightarrow> style \<Rightarrow> unit io" where
  "wizard_init P paths st =
     bind_st (eprintln ([newline] @ bold st (ascii ''Create identity''))) (\<lambda>_.
     bind_st (show_path (sp_root paths)) (\<lambda>shown.
     bind_st (eprintln (ascii ''The encrypted identity stays in: '' @ shown)) (\<lambda>_.
     bind_st project_local_unlock_path (\<lambda>default_unlock_path.
     bind_st (show_path default_unlock_path) (\<lambda>default_unlock.
     bind_st (eprintln (ascii
       ''For easy local testing, the default key location is inside this clone.'')) (\<lambda>_.
     bind_st (eprintln (warning st @ ascii
       '' For real use, use removable or separate storage instead.'')) (\<lambda>_.
     bind_st (prompt_path (ascii ''Unlock-key file path'') (Some default_unlock)) (\<lambda>unlock_path.
     bind_st (prepare_unlock_parent st unlock_path default_unlock_path) (\<lambda>_.
     bind_st (eprintln (dim st right_arrow @ ascii
       '' Generating keys from the operating-system CSPRNG...'')) (\<lambda>_.
     bind_st (initialize P paths unlock_path) (\<lambda>profile.
     bind_st (eprintln (success st @ ascii '' Identity created'')) (\<lambda>_.
     bind_st (eprintln (ascii ''Fingerprint: '' @ formatted_fingerprint profile)) (\<lambda>_.
     bind_st (show_path unlock_path) (\<lambda>shown.
     bind_st (eprintln (ascii ''Unlock key: '' @ shown)) (\<lambda>_.
     ret ())))))))))))))))"

definition wizard_export :: "primitives \<Rightarrow> state_paths \<Rightarrow> style \<Rightarrow> unit io" where
  "wizard_export P paths st =
     bind_st (eprintln ([newline] @ bold st (ascii ''Export public profile''))) (\<lambda>_.
     bind_st (map_err_st (\<lambda>_. NotFound ''identity is not initialized; choose option 1 first'')
       (export_profile P paths)) (\<lambda>profile.
     bind_st (prompt_path (ascii ''Save public profile as'') (Some (ascii ''sealed-profile.pub'')))
       (\<lambda>destination.
     bind_st (write_new_private destination (profile_encode profile)) (\<lambda>_.
     bind_st (show_path destination) (\<lambda>shown.
     bind_st (eprintln (success st @ ascii '' Saved: '' @ shown)) (\<lambda>_.
     bind_st (eprintln (ascii ''Fingerprint: '' @ formatted_fingerprint profile)) (\<lambda>_.
     bind_st (eprintln (ascii
       ''This file is public. Verify the fingerprint out of band.'')) (\<lambda>_.
     ret ()))))))))"

definition wizard_trust :: "primitives \<Rightarrow> state_paths \<Rightarrow> style \<Rightarrow> unit io" where
  "wizard_trust P paths st =
     bind_st (eprintln ([newline] @ bold st (ascii ''Add or verify contact''))) (\<lambda>_.
     bind_st (prompt_path (ascii ''Received .pub file'') None) (\<lambda>profile_path.
     let default_alias = Option.bind (Option.bind (file_stem profile_path) to_str)
           (\<lambda>v. if validate_alias v then Some v else None) in
     bind_st (prompt (ascii ''Contact name'') default_alias) (\<lambda>a.
     if \<not> validate_alias a then
       throw (InvalidInput (''contact name may contain only letters, digits, ''
         @ [CHR 0x27, CHR ''-'', CHR 0x27] @ '' or '' @ [CHR 0x27, CHR ''_'', CHR 0x27]))
     else
       bind_st (trust_profile P paths profile_path a) (\<lambda>profile.
       bind_st (eprintln (success st @ ascii '' Contact pinned: '' @ a)) (\<lambda>_.
       bind_st (eprintln (ascii ''Fingerprint: '' @ formatted_fingerprint profile)) (\<lambda>_.
       bind_st (eprintln (warning st @ ascii
         '' Compare the full fingerprint in person or by voice before sending.'')) (\<lambda>_.
       ret ())))))))"

definition short_fingerprint :: "public_profile \<Rightarrow> bytes" where
  "short_fingerprint profile = take 19 (formatted_fingerprint profile) @ ellipsis"

text \<open>\<open>line.trim_end_matches(['\r', '\n'])\<close>\<close>

definition trim_line_end :: "bytes \<Rightarrow> bytes" where
  "trim_line_end line = rev (dropWhile (\<lambda>b. b = 0x0D \<or> b = newline) (rev line))"

definition saturating_add :: "nat \<Rightarrow> nat \<Rightarrow> nat" where
  "saturating_add a b = min (a + b) usize_max"

lemma tty_read_line_progress:
  assumes "tty_read_line w = (Ok line, w')" and "line \<noteq> []"
  shows "tty_left w' < tty_left w"
proof -
  from assms(1) obtain s rest where s: "w_tty w = Some s" "split_line s = (line, rest)"
    and w': "w_tty w' = Some rest"
    by (auto simp: tty_read_line_def os_step_def split: option.splits prod.splits if_splits)
  from s assms(2) have "s \<noteq> []" by (auto simp: split_line_def)
  with split_line_progress s w' show ?thesis by (simp add: tty_left_def)
qed

text \<open>The loop of \<open>read_multiline_letter\<close>.\<close>

function multiline_loop :: "bytes \<Rightarrow> world \<Rightarrow> bytes result \<times> world" where
  "multiline_loop body w =
     (case tty_read_line w of
        (Inl e, w1) \<Rightarrow> (Err e, w1)
      | (Inr line, w1) \<Rightarrow>
          if length line = 0 then
            (Err (InvalidInput ''terminal input ended before the final dot''), w1)
          else if trim_line_end line = ascii ''.'' then (Ok body, w1)
          else if saturating_add (length body) (length line) > MAX_BODY_LEN then
            (Err (InvalidInput ''message body exceeds the 1 MiB limit''), w1)
          else multiline_loop (body @ line) w1)"
  by auto
termination
proof (relation "measure (\<lambda>(body, w). tty_left w)")
  fix body w r w1 line
  assume "(r, w1) = tty_read_line w" and "r = Inr line" and "length line \<noteq> 0"
  with tty_read_line_progress [of w line w1]
  show "((body @ line, w1), body, w) \<in> measure (\<lambda>(body, w). tty_left w)" by simp
qed simp

declare multiline_loop.simps [simp del]

definition read_multiline_letter :: "bytes io" where
  "read_multiline_letter = bind_st terminal_input (\<lambda>_. multiline_loop [])"

definition wizard_seal :: "primitives \<Rightarrow> state_paths \<Rightarrow> style \<Rightarrow> unit io" where
  "wizard_seal P paths st =
     bind_st (eprintln ([newline] @ bold st (ascii ''Seal a letter''))) (\<lambda>_.
     bind_st (all_contacts P paths) (\<lambda>contacts.
     if contacts = [] then
       throw (NotFound ''no pinned contacts; import a public profile with option 3'')
     else
       let contact_options = map (\<lambda>c. ct_alias c @ ascii ''  '' @ middle_dot @ ascii ''  ''
             @ short_fingerprint (ct_profile c)) contacts in
       bind_st (choose_from_list (ascii ''Choose recipient'') contact_options st) (\<lambda>choice.
       bind_st (lift_result (ok_or (InvalidInput ''recipient selection cancelled'') choice))
         (\<lambda>selected_index.
       bind_st (lift_result (ok_or (InvalidInput ''invalid recipient selection'')
         (if selected_index < length contacts then Some (contacts ! selected_index) else None)))
         (\<lambda>selected.
       bind_st (prompt_unlock_path False) (\<lambda>unlock_path.
       bind_st (prompt_path (ascii ''Save encrypted letter as'')
         (Some (ascii ''letter-for-'' @ ct_alias selected @ ascii ''.bin''))) (\<lambda>output_path.
       bind_st (eprintln ([newline] @ ascii
         ''Write the letter. Finish with a single dot on a new line:'')) (\<lambda>_.
       bind_st (eprintln (rule_line st)) (\<lambda>_.
       bind_st read_multiline_letter (\<lambda>body.
       if body = [] then throw (InvalidInput ''letter body cannot be empty'')
       else
         bind_st (load_identity P paths unlock_path) (\<lambda>(secrets, profile).
         bind_st (seal P secrets profile (ct_profile selected) body) (\<lambda>blob.
         bind_st (write_new_private output_path blob) (\<lambda>_.
         bind_st (eprintln (success st @ ascii '' Letter sealed for '' @ ct_alias selected)) (\<lambda>_.
         bind_st (show_path output_path) (\<lambda>shown.
         bind_st (eprintln (ascii ''File: '' @ shown @ ascii '' ('' @ show_nat (length blob)
           @ ascii '' bytes)'')) (\<lambda>_.
         bind_st (eprintln (ascii
           ''Send this file through any byte-preserving transport.'')) (\<lambda>_.
         ret ())))))))))))))))))"

definition print_letter_status :: "opened_letter \<Rightarrow> style \<Rightarrow> unit io" where
  "print_letter_status letter st =
     bind_st (eprintln (ascii ''  '' @ success st @ ascii '' Integrity valid'')) (\<lambda>_.
     bind_st (eprintln (ascii ''  '' @ success st @ ascii '' Signature valid'')) (\<lambda>_.
     bind_st (eprintln (ascii ''  '' @ success st @ ascii '' Recipient valid'')) (\<lambda>_.
     bind_st (eprintln (case ol_sender_trust letter of
         Pinned a \<Rightarrow> ascii ''  '' @ success st @ ascii '' Sender pinned: '' @ a
       | Mismatch a \<Rightarrow> ascii ''  '' @ failure st @ ascii '' Sender mismatch: '' @ a @ ascii '' ''
           @ em_dash @ ascii '' POSSIBLE MITM''
       | Unknown \<Rightarrow> ascii ''  '' @ warning st @ ascii '' Sender is valid but not pinned'')) (\<lambda>_.
     eprintln (ascii ''     '' @ formatted_fingerprint (ol_sender letter))))))"

text \<open>The part of \<open>wizard_open\<close> that follows \<open>message::open\<close>.\<close>

definition finish_wizard_open :: "bool \<Rightarrow> path \<Rightarrow> opened_letter \<Rightarrow> style \<Rightarrow> unit io" where
  "finish_wizard_open consume blob_path letter st =
     bind_st (eprintln ([newline] @ bold st (ascii ''Verification''))) (\<lambda>_.
     bind_st (print_letter_status letter st) (\<lambda>_.
     bind_st (eprintln ([newline] @ bold st (ascii ''Letter''))) (\<lambda>_.
     bind_st (eprintln (rule_line st)) (\<lambda>_.
     bind_st (stdout_write_all (ol_body letter)) (\<lambda>_.
     bind_st (when_st (\<not> suffix [newline] (ol_body letter)) (stdout_write_all [newline])) (\<lambda>_.
     bind_st stdout_flush (\<lambda>_.
     bind_st (eprintln (rule_line st)) (\<lambda>_.
     if consume then
       bind_st (consume_blob blob_path) (\<lambda>_.
       bind_st (eprintln (success st @ ascii '' Ciphertext consumed (logical deletion only)'')) (\<lambda>_.
       ret ()))
     else
       bind_st (show_path blob_path) (\<lambda>shown.
       bind_st (eprintln (warning st @ ascii '' Ciphertext retained: '' @ shown)) (\<lambda>_.
       ret ()))))))))))"

definition wizard_open :: "primitives \<Rightarrow> state_paths \<Rightarrow> style \<Rightarrow> unit io" where
  "wizard_open P paths st =
     bind_st (eprintln ([newline] @ bold st (ascii ''Open a letter''))) (\<lambda>_.
     bind_st (prompt_path (ascii ''Encrypted letter file'') None) (\<lambda>blob_path.
     bind_st (prompt_unlock_path False) (\<lambda>unlock_path.
     bind_st (prompt_yes_no (ascii ''Delete the ciphertext after a successful open?'') True)
       (\<lambda>consume.
     bind_st (load_identity P paths unlock_path) (\<lambda>(secrets, profile).
     bind_st (all_contacts P paths) (\<lambda>contacts.
     bind_st (map_err_st (\<lambda>_. CannotOpen) (read_blob blob_path)) (\<lambda>blob.
     bind_st (lift_result (open_letter P secrets profile contacts blob)) (\<lambda>letter.
     finish_wizard_open consume blob_path letter st))))))))"

fun show_contacts :: "style \<Rightarrow> contact list \<Rightarrow> unit io" where
  "show_contacts st [] = ret ()"
| "show_contacts st (c # cs) =
     bind_st (eprintln (ascii ''  '' @ success st @ ascii '' '' @ ct_alias c)) (\<lambda>_.
     bind_st (eprintln (ascii ''     '' @ formatted_fingerprint (ct_profile c))) (\<lambda>_.
     show_contacts st cs))"

definition wizard_show :: "primitives \<Rightarrow> state_paths \<Rightarrow> style \<Rightarrow> unit io" where
  "wizard_show P paths st =
     bind_st (eprintln ([newline] @ bold st (ascii ''Identity''))) (\<lambda>_.
     bind_st (map_err_st (\<lambda>_. NotFound ''identity is not initialized; choose option 1 first'')
       (export_profile P paths)) (\<lambda>profile.
     bind_st (eprintln (ascii ''Fingerprint: '' @ formatted_fingerprint profile)) (\<lambda>_.
     bind_st (show_path (sp_root paths)) (\<lambda>shown.
     bind_st (eprintln (ascii ''State: '' @ shown)) (\<lambda>_.
     bind_st (eprintln ([newline] @ bold st (ascii ''Pinned contacts''))) (\<lambda>_.
     bind_st (all_contacts P paths) (\<lambda>contacts.
     if contacts = [] then
       bind_st (eprintln (ascii ''  '' @ dim st circle @ ascii '' None'')) (\<lambda>_. ret ())
     else show_contacts st contacts)))))))"

section \<open>The menu\<close>

definition banner_lines :: "bytes list" where
  "banner_lines =
     [[0xE2, 0x95, 0xAD] @ horizontal 40 @ [0xE2, 0x95, 0xAE],
      [0xE2, 0x94, 0x82] @ ascii ''  SEALED  '' @ middle_dot
        @ ascii ''  private one-time letters  '' @ [0xE2, 0x94, 0x82],
      [0xE2, 0x95, 0xB0] @ horizontal 40 @ [0xE2, 0x95, 0xAF]]"

definition print_banner :: "style \<Rightarrow> unit io" where
  "print_banner st =
     bind_st (eprintln ([newline] @ bold st (banner_lines ! 0) @ [newline]
       @ bold st (banner_lines ! 1) @ [newline] @ bold st (banner_lines ! 2) @ [newline])) (\<lambda>_.
     eprintln (warning st @ ascii
       '' Experimental and unaudited. The transport is untrusted.''))"

definition print_state_summary :: "primitives \<Rightarrow> state_paths \<Rightarrow> style \<Rightarrow> unit io" where
  "print_state_summary P paths st =
     bind_st (eprintln ([newline] @ bold st (ascii ''Status''))) (\<lambda>_.
     bind_st (attempt (export_profile P paths)) (\<lambda>r.
     bind_st (case r of
         Inr profile \<Rightarrow>
           bind_st (eprintln (ascii ''  '' @ success st @ ascii '' Identity ready'')) (\<lambda>_.
           eprintln (ascii ''     '' @ formatted_fingerprint profile))
       | Inl _ \<Rightarrow> eprintln (ascii ''  '' @ dim st circle @ ascii '' No identity yet '' @ em_dash
           @ ascii '' start with option 1'')) (\<lambda>_.
     bind_st (attempt (all_contacts P paths)) (\<lambda>r.
     case r of
       Inr contacts \<Rightarrow> eprintln (ascii ''  '' @ dim st bullet @ ascii '' ''
         @ show_nat (length contacts) @ ascii '' pinned contact(s)'')
     | Inl _ \<Rightarrow> eprintln (ascii ''  '' @ warning st @ ascii '' Contact store needs attention'')))))"

definition MENU_ITEMS :: "bytes list" where
  "MENU_ITEMS = map ascii
     [''Create identity'', ''Export public profile'', ''Add or verify contact'',
      ''Seal a letter'', ''Open a letter'', ''Show identity and contacts'', ''Exit'']"

text \<open>What a choice does: an action after which the menu comes again, or the end.\<close>

definition menu_action :: "primitives \<Rightarrow> state_paths \<Rightarrow> style \<Rightarrow> nat option \<Rightarrow> (unit io + unit io)" where
  "menu_action P paths st choice =
     (if choice = Some 0 then Inl (wizard_init P paths st)
      else if choice = Some 1 then Inl (wizard_export P paths st)
      else if choice = Some 2 then Inl (wizard_trust P paths st)
      else if choice = Some 3 then Inl (wizard_seal P paths st)
      else if choice = Some 4 then Inl (wizard_open P paths st)
      else if choice = Some 5 then Inl (wizard_show P paths st)
      else if choice = Some 6 \<or> choice = None then
        Inr (bind_st (eprintln ([newline] @ dim st bullet @ ascii '' Goodbye.'' @ [newline]))
          (\<lambda>_. ret ()))
      else Inr (throw (InvalidInput ''invalid menu selection'')))"

definition report_action :: "style \<Rightarrow> unit io \<Rightarrow> unit io" where
  "report_action st action =
     bind_st (attempt action) (\<lambda>r.
     bind_st (case r of
         Inr _ \<Rightarrow> eprintln ([newline] @ success st @ ascii '' Done.'' @ [newline])
       | Inl e \<Rightarrow>
           bind_st (get_state w_show_io) (\<lambda>show_io.
           eprintln ([newline] @ failure st @ ascii '' '' @ ascii (display_error show_io e)
             @ [newline]))) (\<lambda>_.
     wait_for_enter (ascii ''Press Enter to return to the menu'')))"

section \<open>What the menu leaves alone\<close>

lemma keeps_multiline [simp]: "keeps looks (multiline_loop body)" "keeps looks read_multiline_letter"
proof -
  show m: "keeps looks (multiline_loop body)" for body
  proof (rule keepsI)
    show "looks w w'" if "multiline_loop body w = (r, w')" for w r w'
      using that
    proof (induction body w arbitrary: r w' rule: multiline_loop.induct)
      case (1 body w)
      obtain q w1 where t: "tty_read_line w = (q, w1)" by fastforce
      then have l1: "looks w w1" by (rule keepsD [OF keeps_streams(5)])
      with 1 t show ?case
        by (cases q) (auto simp: multiline_loop.simps [of body w] split: if_splits
            intro: looking.frame_trans)
    qed
  qed
  show "keeps looks read_multiline_letter"
    unfolding read_multiline_letter_def terminal_input_def by (intro looking.keeps_rules m) auto
qed

lemma keeps_wizard_show [simp]: "keeps looks (wizard_show P sp st)"
proof -
  have c: "keeps looks (show_contacts st cs)" for cs
  proof (induction cs)
    case (Cons c cs)
    then show ?case unfolding show_contacts.simps by (intro looking.keeps_rules) auto
  qed (simp only: show_contacts.simps looking.keeps_ret)
  show ?thesis unfolding wizard_show_def by (intro looking.keeps_rules c) auto
qed

lemma keeps_prints [simp]:
  "keeps looks (print_letter_status letter st)" "keeps looks (print_banner st)"
  "keeps looks (print_state_summary P sp st)" "keeps looks style_detect"
  unfolding print_letter_status_def print_banner_def print_state_summary_def style_detect_def
  by (intro looking.keeps_rules; auto)+

lemma keeps_project_local [simp]: "keeps looks project_local_unlock_path"
  unfolding project_local_unlock_path_def by (intro looking.keeps_rules) auto

lemma keeps_prepare [simp]: "keeps extends (prepare_unlock_parent st u d)"
  unfolding prepare_unlock_parent_def Let_def
  by (intro extending.keeps_rules) (auto intro: keeps_looks_extends)

lemma keeps_wizards [simp]:
  "keeps extends (wizard_init P sp st)" "keeps extends (wizard_export P sp st)"
  "keeps extends (wizard_trust P sp st)" "keeps extends (wizard_seal P sp st)"
  unfolding wizard_init_def wizard_export_def wizard_trust_def wizard_seal_def Let_def
  by (intro extending.keeps_rules; auto intro: keeps_looks_extends)+

lemma keeps_wizard_open [simp]: "keeps (spares is_blob) (wizard_open P sp st)"
proof -
  have f: "keeps_from (\<lambda>s. file_at s p = Some c) (spares is_blob)
      (finish_wizard_open consume p letter st)" if "is_blob c" for p c consume letter
  proof -
    have "keeps_from (\<lambda>s. file_at s p = Some c) (spares is_blob)
      (if consume then
         bind_st (consume_blob p) (\<lambda>_. bind_st (eprintln (success st @ ascii
           '' Ciphertext consumed (logical deletion only)'')) (\<lambda>_. ret ()))
       else
         bind_st (show_path p) (\<lambda>shown.
         bind_st (eprintln (warning st @ ascii '' Ciphertext retained: '' @ shown)) (\<lambda>_. ret ())))"
    proof (cases consume)
      case True
      then show ?thesis
        by (simp only: if_True) (intro keeps_consume_last that looking.keeps_rules; simp)
    next
      case False
      then show ?thesis
        by (simp only: if_False)
          (intro keeps_from_keeps keeps_spares keeps_looks_extends looking.keeps_rules; simp)
    qed
    then show ?thesis
      unfolding finish_wizard_open_def
      by (intro keeps_from_file extending.keeps_when) (simp_all add: keeps_looks_extends)
  qed
  have "keeps (spares is_blob) (bind_st (map_err_st (\<lambda>_. CannotOpen) (read_blob p)) (\<lambda>blob.
      bind_st (lift_result (open_letter P s profile cs blob)) (\<lambda>letter.
      finish_wizard_open consume p letter st)))" for p s profile cs consume
    by (rule sparing.keeps_from_start, rule sparing.keeps_from_bind
          [where B = "\<lambda>blob s. file_at s p = Some blob"])
      (auto intro!: sparing.keeps_map_err keeps_spares keeps_looks_extends keeps_from_lift f
        dest: open_letter_is_blob read_blob_Ok(2))
  note rest = this
  show ?thesis
    unfolding wizard_open_def
    by (intro rest sparing.keeps_rules; simp add: keeps_spares keeps_looks_extends)
qed

lemma keeps_menu_action:
  "menu_action P sp st choice = Inl action \<Longrightarrow> keeps (spares is_blob) action"
  "menu_action P sp st choice = Inr finish \<Longrightarrow> keeps looks finish"
  by (auto simp: menu_action_def keeps_spares keeps_looks_extends split: if_splits
      intro!: looking.keeps_rules looking.keeps_ret looking.keeps_throw)

lemma keeps_report_action:
  "keeps (spares is_blob) action \<Longrightarrow> keeps (spares is_blob) (report_action st action)"
  unfolding report_action_def
  by (intro sparing.keeps_rules; simp add: keeps_spares keeps_looks_extends)

section \<open>The menu loop ends with its input\<close>

lemma trim_Nil [simp]: "trim [] = []"
  by (simp add: trim_def trim_start.simps [of "[]"] trim_end.simps [of "[]"] starting_white_def
      ending_white_def white_space_def)

lemma prompt_progress:
  assumes "prompt label None w = (Ok s, w')"
  shows "tty_left w' < tty_left w"
proof -
  from assms obtain w1 w2 w3 input where 1: "eprint (label @ ascii '': '') w = (Ok (), w1)"
    and 2: "stderr_flush w1 = (Ok (), w2)" and 3: "terminal_input w2 = (Ok (), w3)"
    and 4: "tty_read_line w3 = (Ok input, w')" and "trim input \<noteq> []"
    unfolding prompt_def read_terminal_line_def Let_def
    by (auto elim!: bind_st_OkE split: if_splits)
  then have "input \<noteq> []" by auto
  with 4 have "tty_left w' < tty_left w3" by (rule tty_read_line_progress)
  moreover have "looks w w1" "looks w1 w2" "looks w2 w3"
    using 1 2 3 unfolding terminal_input_def by (auto intro: keepsD [OF keeps_eprint(1)]
        keepsD [OF keeps_streams(3)] keepsD [OF keeps_streams(4)])
  ultimately show ?thesis by (auto dest!: looks_tty_left)
qed

lemma choose_by_number_progress:
  assumes "choose_by_number title choices st w = (Ok x, w')"
  shows "tty_left w' < tty_left w" and "\<exists>i < length choices. x = Some i"
proof -
  have l: "keeps looks (list_choices i cs)" for i cs
  proof (induction cs arbitrary: i)
    case (Cons c cs)
    then show ?case unfolding list_choices.simps by (intro looking.keeps_rules) auto
  qed (simp only: list_choices.simps looking.keeps_ret)
  from assms obtain w1 w2 w3 s where 1: "eprintln ([newline] @ bold st title) w = (Ok (), w1)"
    and 2: "eprintln (dim st (ascii ''Arrow navigation is unavailable; enter a number.'')) w1
      = (Ok (), w2)"
    and 3: "list_choices 0 choices w2 = (Ok (), w3)"
    and 4: "prompt (ascii ''Selection'') None w3 = (Ok s, w')"
    and 5: "map_option Some (Option.bind (Option.bind (parse_usize s) (\<lambda>n. checked_sub n 1))
          (\<lambda>i. if i < length choices then Some i else None)) = Some x"
    unfolding choose_by_number_def by (elim bind_st_OkE) (auto simp del: eprintln_Ok_iff)
  have "looks w w1" "looks w1 w2" "looks w2 w3"
    by (rule keepsD [OF keeps_eprint(2) 1], rule keepsD [OF keeps_eprint(2) 2], rule keepsD [OF l 3])
  with prompt_progress [OF 4] show "tty_left w' < tty_left w" by (auto dest!: looks_tty_left)
  from 5 show "\<exists>i < length choices. x = Some i" by (auto simp: bind_eq_Some_conv split: if_splits)
qed

lemma raw_picker_progress:
  assumes "raw_picker title choices st w = (Ok x, w')" and "choices \<noteq> []"
  shows "tty_left w' < tty_left w" and "x = Some i \<Longrightarrow> i < length choices"
proof -
  from assms(1) obtain w1 w2 w3 where 1: "eprintln ([newline] @ bold st title) w = (Ok (), w1)"
    and 2: "eprintln (dim st picker_help) w1 = (Ok (), w2)"
    and 3: "draw_picker choices 0 st False w2 = (Ok (), w3)"
    and 4: "picker_loop st choices 0 w3 = (Ok x, w')"
    unfolding raw_picker_def by (elim bind_st_OkE) (auto simp del: eprintln_Ok_iff)
  have "looks w w1" "looks w1 w2" "looks w2 w3"
    by (rule keepsD [OF keeps_eprint(2) 1], rule keepsD [OF keeps_eprint(2) 2],
        rule keepsD [OF keeps_draw_picker 3])
  with picker_loop_result [OF 4] assms(2)
  show "tty_left w' < tty_left w" and "x = Some i \<Longrightarrow> i < length choices" by (auto dest!: looks_tty_left)
qed

lemma choose_progress:
  assumes "choose_from_list title choices st w = (Ok x, w')"
  shows "tty_left w' < tty_left w" and "x = Some i \<Longrightarrow> i < length choices"
proof -
  from assms have ne: "choices \<noteq> []" by (auto simp: choose_from_list_def)
  obtain t w1 where 1: "raw_enter w = (t, w1)" by fastforce
  have l1: "tty_left w1 \<le> tty_left w" using keepsD [OF keeps_stty(3) 1] by (rule looks_tty_left)
  have "tty_left w' < tty_left w1 \<and> (x = Some i \<longrightarrow> i < length choices)"
  proof (cases t)
    case (Inl e)
    with assms ne 1 have "choose_by_number title choices st w1 = (Ok x, w')"
      by (simp add: choose_from_list_def bind_st_def attempt_def)
    then show ?thesis using choose_by_number_progress by fastforce
  next
    case (Inr m)
    obtain q w2 where 2: "raw_picker title choices st w1 = (q, w2)" by fastforce
    with assms ne 1 Inr have q: "q = Ok x" and 3: "restore_stty m w2 = (Ok (), w')"
      by (auto simp: choose_from_list_def bind_st_def restore_stty_def attempt_def split: prod.splits)
    from raw_picker_progress [OF 2 [unfolded q] ne] keepsD [OF keeps_stty(2) 3]
    show ?thesis by (auto dest!: looks_tty_left)
  qed
  with l1 show "tty_left w' < tty_left w" and "x = Some i \<Longrightarrow> i < length choices" by auto
qed

lemma spares_tty_left: "spares B w w' \<Longrightarrow> tty_left w' \<le> tty_left w"
  by (simp add: spares_def same_process_def)

text \<open>Every turn of the menu uses up input, so the loop ends on every terminal.\<close>

definition menu_turn :: "primitives \<Rightarrow> state_paths \<Rightarrow> style \<Rightarrow> nat option io" where
  "menu_turn P paths st =
     bind_st (print_state_summary P paths st) (\<lambda>_.
     choose_from_list (ascii ''Choose an action'') MENU_ITEMS st)"

lemma keeps_menu_turn [simp]: "keeps looks (menu_turn P sp st)"
  unfolding menu_turn_def by (intro looking.keeps_rules) auto

lemma menu_turn_progress:
  assumes "menu_turn P sp st w = (Ok x, w')"
  shows "tty_left w' < tty_left w" and "x = Some i \<Longrightarrow> i < length MENU_ITEMS"
proof -
  from assms obtain u w1 where 1: "print_state_summary P sp st w = (Ok u, w1)"
    and 2: "choose_from_list (ascii ''Choose an action'') MENU_ITEMS st w1 = (Ok x, w')"
    unfolding menu_turn_def by (elim bind_st_OkE)
  from choose_progress [OF 2] keepsD [OF keeps_prints(3) 1]
  show "tty_left w' < tty_left w" and "x = Some i \<Longrightarrow> i < length MENU_ITEMS" by (auto dest!: looks_tty_left)
qed

lemma menu_action_choice: "menu_action P sp st choice = Inl action \<Longrightarrow> \<exists>i. choice = Some i"
  by (cases choice) (auto simp: menu_action_def)

function interactive_loop :: "primitives \<Rightarrow> state_paths \<Rightarrow> style \<Rightarrow> world \<Rightarrow> unit result \<times> world" where
  "interactive_loop P paths st w =
     (case menu_turn P paths st w of
        (Inl e, w1) \<Rightarrow> (Err e, w1)
      | (Inr choice, w1) \<Rightarrow>
          (case menu_action P paths st choice of
             Inr finish \<Rightarrow> finish w1
           | Inl action \<Rightarrow>
               (case report_action st action w1 of
                  (Inl e, w2) \<Rightarrow> (Err e, w2)
                | (Inr _, w2) \<Rightarrow> interactive_loop P paths st w2)))"
  by auto
termination
proof (relation "measure (\<lambda>(P, paths, st, w). tty_left w)")
  fix P paths st w r w1 choice action r2 w2 u
  assume t: "(r, w1) = menu_turn P paths st w" "r = Inr choice"
    and a: "menu_action P paths st choice = Inl action"
    and d: "(r2, w2) = report_action st action w1"
  from menu_action_choice [OF a] obtain i where "choice = Some i" by blast
  with t menu_turn_progress(1) have "tty_left w1 < tty_left w" by metis
  moreover have "spares is_blob w1 w2"
    by (rule keepsD [OF keeps_report_action [OF keeps_menu_action(1) [OF a]] d [symmetric]])
  ultimately show "((P, paths, st, w2), P, paths, st, w)
      \<in> measure (\<lambda>(P, paths, st, w). tty_left w)"
    using spares_tty_left by fastforce
qed simp

declare interactive_loop.simps [simp del]

definition interactive :: "primitives \<Rightarrow> unit io" where
  "interactive P =
     bind_st discover (\<lambda>paths.
     bind_st style_detect (\<lambda>st.
     bind_st (print_banner st) (\<lambda>_.
     interactive_loop P paths st)))"

lemma interactive_loop_frame:
  assumes "frame R" and turn: "keeps R (menu_turn P sp st)"
    and act: "\<And>choice action. menu_action P sp st choice = Inl action \<Longrightarrow> keeps R (report_action st action)"
    and fin: "\<And>choice finish. menu_action P sp st choice = Inr finish \<Longrightarrow> keeps R finish"
  shows "keeps R (interactive_loop P sp st)"
proof -
  note trans = frame.frame_trans [OF assms(1)]
  have "R w w'" if "tty_left w = n" "interactive_loop P sp st w = (r, w')" for n w r w'
    using that
  proof (induction n arbitrary: w rule: less_induct)
    case (less n)
    obtain q w1 where t: "menu_turn P sp st w = (q, w1)" by fastforce
    with turn have s1: "R w w1" by (rule keepsD)
    note unfold = interactive_loop.simps [of P sp st w]
    show ?case
    proof (cases q)
      case (Inl e)
      with less.prems t s1 show ?thesis by (auto simp: unfold)
    next
      case (Inr choice)
      show ?thesis
      proof (cases "menu_action P sp st choice")
        case f: (Inr finish)
        with less.prems t Inr have "finish w1 = (r, w')" by (simp add: unfold)
        with fin [OF f] have "R w1 w'" by (rule keepsD)
        with s1 show ?thesis by (rule trans)
      next
        case a: (Inl action)
        obtain q2 w2 where d: "report_action st action w1 = (q2, w2)" by fastforce
        with act [OF a] have "R w1 w2" by (rule keepsD)
        with s1 have s2: "R w w2" by (rule trans)
        show ?thesis
        proof (cases q2)
          case (Inl e)
          with less.prems t Inr a d s2 show ?thesis by (auto simp: unfold)
        next
          case q2: (Inr u)
          with less.prems t Inr a d have rest: "interactive_loop P sp st w2 = (r, w')"
            by (simp add: unfold)
          from menu_action_choice [OF a] obtain i where "choice = Some i" by blast
          with t Inr menu_turn_progress(1) have "tty_left w1 < tty_left w" by metis
          moreover have "spares is_blob w1 w2"
            using keepsD [OF keeps_report_action [OF keeps_menu_action(1) [OF a]] d] .
          ultimately have "tty_left w2 < n"
            using spares_tty_left [of is_blob w1 w2] less.prems(1) by simp
          from less.IH [OF this refl rest] s2 show ?thesis by (blast intro: trans)
        qed
      qed
    qed
  qed
  then show ?thesis by (blast intro: keepsI)
qed

lemma keeps_interactive_loop [simp]: "keeps (spares is_blob) (interactive_loop P sp st)"
  by (rule interactive_loop_frame [OF sparing.frame_axioms])
    (auto dest: keeps_menu_action intro: keeps_report_action simp: keeps_spares keeps_looks_extends)

section \<open>The picker as a function of the keys\<close>

lemma bind_eprint:
  "bind_st (eprint bs) f w = f () (w\<lparr>w_stderr := w_stderr w @ bs\<rparr>)"
  "bind_st (eprintln bs) f w = f () (w\<lparr>w_stderr := w_stderr w @ bs @ [newline]\<rparr>)"
  by (simp_all add: bind_st_def eprint_def eprintln_def)

text \<open>The loop as one step of the state-and-error computations.\<close>

lemma picker_loop_unfold:
  "picker_loop st choices selected =
     bind_st read_picker_key (\<lambda>key.
     if key = KeySelect then bind_st (eprintln []) (\<lambda>_. ret (Some selected))
     else if key = KeyCancel then bind_st (eprintln []) (\<lambda>_. ret None)
     else if key = KeyIgnore then picker_loop st choices selected
     else
       let selected' = (if key = KeyUp then move_up (length choices) selected
                        else move_down (length choices) selected)
       in bind_st (draw_picker choices selected' st True) (\<lambda>_. picker_loop st choices selected'))"
  by (rule ext, subst picker_loop.simps) (auto simp: bind_st_def Let_def split: prod.splits sum.splits)

text \<open>The keys a user can press, and what the terminal sends for them.\<close>

fun key_bytes :: "picker_key \<Rightarrow> bytes" where
  "key_bytes KeyUp = [escape, 0x5B, 0x41]"
| "key_bytes KeyDown = [escape, 0x5B, 0x42]"
| "key_bytes KeySelect = [0x0D]"
| "key_bytes KeyCancel = [0x03]"
| "key_bytes KeyIgnore = [0x20]"

fun press :: "nat \<Rightarrow> picker_key \<Rightarrow> nat \<Rightarrow> nat" where
  "press n KeyUp s = move_up n s"
| "press n KeyDown s = move_down n s"
| "press n _ s = s"

definition types :: "world \<Rightarrow> bytes \<Rightarrow> bool" where
  "types w bs \<longleftrightarrow> no_faults w \<and> w_tty w = Some bs"

lemma tty_read_exact_runs:
  "types w (a @ rest) \<Longrightarrow> length a = n \<Longrightarrow>
     tty_read_exact n w = (Ok a, tick (w\<lparr>w_tty := Some rest\<rparr>))"
  by (simp add: tty_read_exact_def os_step_def types_def)

lemma types_after [simp]:
  "no_faults (w\<lparr>w_tty := t\<rparr>) = no_faults w"
  "no_faults (w\<lparr>w_stderr := e\<rparr>) = no_faults w"
  "types (tick w) bs = types w bs"
  "types (w\<lparr>w_stderr := e\<rparr>) bs = types w bs"
  by (simp_all add: types_def no_faults_def)

lemma read_picker_key_runs:
  assumes "types w (key_bytes k @ rest)"
  shows "\<exists>w'. read_picker_key w = (Ok k, w') \<and> types w' rest"
proof -
  let ?w1 = "tick (w\<lparr>w_tty := Some (tl (key_bytes k) @ rest)\<rparr>)"
  have "types w ([hd (key_bytes k)] @ tl (key_bytes k) @ rest)" using assms by (cases k) auto
  from tty_read_exact_runs [OF this, of 1]
  have 1: "tty_read_exact 1 w = (Ok [hd (key_bytes k)], ?w1)" by simp
  have w1: "types ?w1 (tl (key_bytes k) @ rest)" using assms by (simp add: types_def)
  note 2 = tty_read_exact_runs [OF w1, of 2]
  show ?thesis
    using 1 2 w1 by (cases k) (auto simp: read_picker_key_def decode_key_def bind_st_def types_def)
qed

lemma draw_picker_runs:
  assumes "types w bs"
  shows "\<exists>w'. draw_picker choices s st b w = (Ok (), w') \<and> types w' bs"
proof -
  have c: "\<exists>w'. draw_choices st s i cs v = (Ok (), w') \<and> types w' bs" if "types v bs" for i cs v
    using that
  proof (induction cs arbitrary: i v)
    case (Cons c cs)
    then show ?case by (simp add: bind_eprint if_distrib [of "\<lambda>m. bind_st m f v" for f v])
  qed simp
  define v where "v = (if b then w\<lparr>w_stderr := w_stderr w @ [escape] @ ascii ''[''
    @ show_nat (length choices) @ ascii ''A''\<rparr> else w)"
  then have "types v bs" using assms by simp
  from c [OF this] obtain u where u: "draw_choices st s 0 choices v = (Ok (), u)" "types u bs" by blast
  then have "stderr_flush u = (Ok (), tick u)"
    by (simp add: stderr_flush_def os_step_def types_def)
  with u show ?thesis
    by (auto simp: draw_picker_def when_st_def v_def eprint_def bind_st_def)
qed

lemma picker_loop_keys:
  assumes "types w (concat (map key_bytes ks) @ key_bytes KeySelect @ rest)"
    and "set ks \<subseteq> {KeyUp, KeyDown, KeyIgnore}"
  shows "\<exists>w'. picker_loop st choices s w =
    (Ok (Some (fold (press (length choices)) ks s)), w') \<and> types w' rest"
  using assms
proof (induction ks arbitrary: s w)
  case Nil
  then obtain v where v: "read_picker_key w = (Ok KeySelect, v)" "types v rest"
    using read_picker_key_runs [of w KeySelect] by auto
  then show ?case
    by (subst picker_loop_unfold) (simp add: bind_eprint)
next
  case (Cons k ks)
  then have "types w (key_bytes k @ concat (map key_bytes ks) @ key_bytes KeySelect @ rest)" by simp
  from read_picker_key_runs [OF this] obtain v where v: "read_picker_key w = (Ok k, v)"
    "types v (concat (map key_bytes ks) @ key_bytes KeySelect @ rest)" by blast
  show ?case
  proof (cases "k = KeyIgnore")
    case True
    with Cons v show ?thesis by (subst picker_loop_unfold) (simp add: bind_st_def)
  next
    case False
    with Cons.prems have k: "k = KeyUp \<or> k = KeyDown" by auto
    obtain u where u: "draw_picker choices (press (length choices) k s) st True v = (Ok (), u)"
      "types u (concat (map key_bytes ks) @ key_bytes KeySelect @ rest)"
      using draw_picker_runs [OF v(2)] by blast
    have "picker_loop st choices s w = picker_loop st choices (press (length choices) k s) u"
      using v(1) u(1) k by (subst picker_loop_unfold) (auto simp: bind_st_def Let_def)
    with Cons u show ?thesis by simp
  qed
qed

text \<open>Where the cursor ends up: the moves down less the moves up, around the list.\<close>

lemma fold_press:
  assumes "s < n" and "set ks \<subseteq> {KeyUp, KeyDown, KeyIgnore}"
  shows "int (fold (press n) ks s) =
    (int s + int (count_list ks KeyDown) - int (count_list ks KeyUp)) mod int n"
  using assms
proof (induction ks arbitrary: s)
  case (Cons k ks)
  have up: "int (move_up n s) = (int s - 1) mod int n" if "s < n"
    using that by (cases s) (auto simp: move_up_def checked_sub_def zmod_minus1 of_nat_diff)
  have down: "int (move_down n s) = (1 + int s) mod int n"
    by (simp add: move_down_def zmod_int)
  have lt: "press n k s < n" using Cons.prems by (cases k) (auto simp: move_bounds)
  from Cons.IH [OF lt] Cons.prems have ih: "int (fold (press n) (k # ks) s) =
    (int (press n k s) + int (count_list ks KeyDown) - int (count_list ks KeyUp)) mod int n"
    by simp
  have shift: "(b + x - y) mod m = (a + x - y) mod m" if "b = a mod m" for a b x y m :: int
    using that mod_add_left_eq [of a m "x - y"] by (simp add: algebra_simps)
  have "k = KeyUp \<or> k = KeyDown \<or> k = KeyIgnore" using Cons.prems by auto
  then show ?case
  proof (elim disjE)
    assume k: "k = KeyUp"
    from shift [OF up [OF Cons.prems(1)], of "int (count_list ks KeyDown)" "int (count_list ks KeyUp)"]
    show ?thesis unfolding ih by (simp add: k algebra_simps)
  next
    assume k: "k = KeyDown"
    from shift [OF down, of "int (count_list ks KeyDown)" "int (count_list ks KeyUp)"] show ?thesis unfolding ih by (simp add: k algebra_simps)
  next
    assume "k = KeyIgnore"
    with ih show ?thesis by simp
  qed
qed simp

section \<open>What is typed is what is sealed\<close>

lemma split_line_newline: "newline \<notin> set l \<Longrightarrow> split_line (l @ newline # rest) = (l @ [newline], rest)"
  by (induction l) (auto simp: split_line_def Let_def split: if_splits)

lemma tty_read_line_runs:
  "types w (l @ newline # rest) \<Longrightarrow> newline \<notin> set l \<Longrightarrow> utf8_valid (l @ [newline]) \<Longrightarrow>
     tty_read_line w = (Ok (l @ [newline]), tick (w\<lparr>w_tty := Some rest\<rparr>))"
  by (simp add: tty_read_line_def os_step_def types_def split_line_newline)

definition letter_line :: "bytes \<Rightarrow> bool" where
  "letter_line l \<longleftrightarrow> newline \<notin> set l \<and> utf8_valid (l @ [newline]) \<and>
     trim_line_end (l @ [newline]) \<noteq> ascii ''.''"

lemma multiline_loop_runs:
  assumes "types w (concat (map (\<lambda>l. l @ [newline]) ls) @ ascii ''.'' @ newline # rest)"
    and "list_all letter_line ls"
    and "length body + length (concat (map (\<lambda>l. l @ [newline]) ls)) \<le> MAX_BODY_LEN"
  shows "\<exists>w'. multiline_loop body w = (Ok (body @ concat (map (\<lambda>l. l @ [newline]) ls)), w') \<and>
    types w' rest"
  using assms
proof (induction ls arbitrary: body w)
  case Nil
  have "trim_line_end (ascii ''.'' @ [newline]) = ascii ''.''"
    by (simp add: trim_line_end_def ascii_def)
  moreover have "newline \<notin> set (ascii ''.'')" "utf8_valid (ascii ''.'' @ [newline])"
    by (simp_all add: ascii_def)
  ultimately show ?case
    using Nil tty_read_line_runs [of w "ascii ''.''" rest]
    by (subst multiline_loop.simps) (auto simp: types_def)
next
  case (Cons l ls)
  let ?rest = "concat (map (\<lambda>l. l @ [newline]) ls) @ ascii ''.'' @ newline # rest"
  let ?v = "tick (w\<lparr>w_tty := Some ?rest\<rparr>)"
  from Cons.prems have l: "letter_line l" by simp
  then have 1: "tty_read_line w = (Ok (l @ [newline]), ?v)"
    using Cons.prems by (intro tty_read_line_runs) (auto simp: letter_line_def)
  have "types ?v ?rest" using Cons.prems by (simp add: types_def)
  from Cons.IH [OF this, of "body @ l @ [newline]"] Cons.prems
  obtain u where u: "multiline_loop (body @ l @ [newline]) ?v =
      (Ok (body @ l @ [newline] @ concat (map (\<lambda>l. l @ [newline]) ls)), u)" "types u rest"
    by auto
  have "saturating_add (length body) (length (l @ [newline])) \<le> MAX_BODY_LEN"
    using Cons.prems by (simp add: saturating_add_def)
  with 1 l u have "multiline_loop body w = multiline_loop (body @ l @ [newline]) ?v"
    by (subst multiline_loop.simps) (simp add: letter_line_def)
  with u show ?case by simp
qed

section \<open>The terminal gets its mode back\<close>

text \<open>
  What \<open>stty\<close> promises: \<open>-g\<close> prints the settings and changes nothing, and an argument of
  that form sets them again.
\<close>

definition stty_law :: "(bytes list \<Rightarrow> bytes \<Rightarrow> (bool \<times> bytes) \<times> bytes) \<Rightarrow> bool" where
  "stty_law S \<longleftrightarrow> (\<forall>m. \<exists>out. S [ascii ''-g''] m = ((True, out), m) \<and> utf8_valid out \<and>
     (\<forall>m'. snd (S [trim out] m') = m))"

definition same_mode :: "world \<Rightarrow> world \<Rightarrow> bool" where
  "same_mode w w' \<longleftrightarrow> w_tty_mode w' = w_tty_mode w \<and> w_stty w' = w_stty w"

interpretation moding: frame same_mode
  by unfold_locales (auto simp: same_mode_def)

lemma keeps_mode_os_step:
  "(\<And>w. same_mode w (snd (f w))) \<Longrightarrow> keeps same_mode (os_step f)"
  by (auto intro!: keepsI simp: os_step_def same_mode_def tick_def split: option.splits prod.splits)
    (metis snd_conv)+

lemma keeps_mode [simp]:
  "keeps same_mode (eprint bs)" "keeps same_mode (eprintln bs)" "keeps same_mode stderr_flush"
  "keeps same_mode (tty_read_exact n)" "keeps same_mode tty_read_line" "keeps same_mode tty_open"
proof -
  show "keeps same_mode (eprint bs)" "keeps same_mode (eprintln bs)"
    by (auto intro!: keepsI simp: eprint_def eprintln_def same_mode_def)
  show "keeps same_mode stderr_flush" "keeps same_mode (tty_read_exact n)"
    "keeps same_mode tty_read_line" "keeps same_mode tty_open"
    unfolding stderr_flush_def tty_read_exact_def tty_read_line_def tty_open_def
    by (rule keeps_mode_os_step;
        simp add: same_mode_def split: option.split prod.split)+
qed

lemma keeps_mode_picker [simp]:
  "keeps same_mode read_picker_key" "keeps same_mode (draw_picker choices s st b)"
  "keeps same_mode (choose_by_number title choices st)"
proof -
  have "keeps same_mode (decode_key b)" for b
    unfolding decode_key_def by (intro moding.keeps_rules) auto
  then show "keeps same_mode read_picker_key"
    unfolding read_picker_key_def by (intro moding.keeps_rules) auto
  have d: "keeps same_mode (draw_choices st s i choices)" for i choices
  proof (induction choices arbitrary: i)
    case (Cons c cs)
    then show ?case unfolding draw_choices.simps by (intro moding.keeps_rules) auto
  qed (simp only: draw_choices.simps moding.keeps_ret)
  show "keeps same_mode (draw_picker choices s st b)"
    unfolding draw_picker_def by (intro moding.keeps_rules d) auto
  have l: "keeps same_mode (list_choices i cs)" for i cs
  proof (induction cs arbitrary: i)
    case (Cons c cs)
    then show ?case unfolding list_choices.simps by (intro moding.keeps_rules) auto
  qed (simp only: list_choices.simps moding.keeps_ret)
  have "keeps same_mode (prompt label None)" for label
    unfolding prompt_def read_terminal_line_def terminal_input_def Let_def
    by (intro moding.keeps_rules) auto
  then show "keeps same_mode (choose_by_number title choices st)"
    unfolding choose_by_number_def by (intro moding.keeps_rules l) auto
qed

lemma bind_at:
  assumes "frame R" and "keeps R m" and "\<And>x w'. m w = (Inr x, w') \<Longrightarrow> R w' (snd (f x w'))"
  shows "R w (snd (bind_st m f w))"
proof -
  obtain q v where m: "m w = (q, v)" by fastforce
  with assms(2) have "R w v" by (rule keepsD)
  with m assms(3) show ?thesis by (cases q) (auto intro: frame.frame_trans [OF assms(1)])
qed

lemma if_cases3:
  "P x \<Longrightarrow> P y \<Longrightarrow> P z \<Longrightarrow> P u \<Longrightarrow> P (if a then x else if b then y else if c then z else u)"
  by simp

lemma keeps_mode_picker_loop [simp]: "keeps same_mode (picker_loop st choices s)"
proof -
  have "same_mode w (snd (picker_loop st choices s w))" for w
  proof (induction "tty_left w" arbitrary: s w rule: less_induct)
    case less
    show ?case
    proof (subst picker_loop_unfold, rule bind_at [OF moding.frame_axioms keeps_mode_picker(1)])
      fix key w1
      assume k: "read_picker_key w = (Inr key, w1)"
      let ?s = "if key = KeyUp then move_up (length choices) s else move_down (length choices) s"
      have lt: "tty_left w1 < tty_left w" using k by (rule read_picker_key_progress)
      have "same_mode w1 (snd (bind_st (draw_picker choices ?s st True)
          (\<lambda>_. picker_loop st choices ?s) w1))"
      proof (rule bind_at [OF moding.frame_axioms keeps_mode_picker(2)])
        fix u w2
        assume "draw_picker choices ?s st True w1 = (Inr u, w2)"
        then have "tty_left w2 \<le> tty_left w1" by (intro looks_tty_left keepsD [OF keeps_draw_picker])
        with lt show "same_mode w2 (snd (picker_loop st choices ?s w2))" by (intro less) simp
      qed
      moreover have "same_mode w1 (snd (picker_loop st choices s w1))" using lt by (rule less)
      moreover have "same_mode w1 (snd (bind_st (eprintln []) (\<lambda>_. ret x) w1))" for x :: "nat option"
        by (simp add: bind_eprint same_mode_def)
      ultimately show "same_mode w1 (snd ((if key = KeySelect then bind_st (eprintln []) (\<lambda>_. ret (Some s))
         else if key = KeyCancel then bind_st (eprintln []) (\<lambda>_. ret None)
         else if key = KeyIgnore then picker_loop st choices s
         else let selected' = ?s in bind_st (draw_picker choices selected' st True)
             (\<lambda>_. picker_loop st choices selected')) w1))"
        unfolding Let_def by (rule_tac P = "\<lambda>m. same_mode w1 (snd (m w1))" in if_cases3)
    qed
  qed
  then show ?thesis by (simp add: keeps_def)
qed

lemma run_stty_runs:
  "no_faults w \<Longrightarrow> run_stty as w =
     (Ok (fst (w_stty w as (w_tty_mode w))),
      tick (w\<lparr>w_tty_mode := snd (w_stty w as (w_tty_mode w))\<rparr>))"
  by (simp add: run_stty_def os_step_def split: prod.split)

text \<open>Restoring a saved mode sets it, whatever the mode was.\<close>

lemma restore_stty_mode:
  assumes "no_faults w" and "\<forall>m'. snd (w_stty w [saved] m') = m"
    and "restore_stty saved w = (r, w')"
  shows "r = Ok ()" and "w_tty_mode w' = m"
  using assms by (auto simp: restore_stty_def run_stty_runs bind_st_def attempt_def)

lemma stty_runs:
  assumes "no_faults w"
  shows "stty as w =
    (let (ok, out) = fst (w_stty w as (w_tty_mode w)) in
       if \<not> ok then Err (InvalidInput ''cannot configure terminal key input'')
       else if utf8_valid out then Ok (trim out)
       else Err (InvalidInput ''terminal returned invalid settings''),
     tick (w\<lparr>w_tty_mode := snd (w_stty w as (w_tty_mode w))\<rparr>))"
  using assms by (simp add: stty_def bind_st_def run_stty_runs split: prod.split)

text \<open>Entering raw mode: either the mode is as it was, or it can be restored.\<close>

lemma raw_enter_mode:
  assumes law: "stty_law (w_stty w)" and nf: "no_faults w" and run: "raw_enter w = (r, w')"
  shows "w_stty w' = w_stty w \<and> no_faults w' \<and>
    (case r of Inl e \<Rightarrow> w_tty_mode w' = w_tty_mode w
     | Inr saved \<Rightarrow> \<forall>m'. snd (w_stty w [saved] m') = w_tty_mode w)"
proof -
  from law obtain out where g: "w_stty w [ascii ''-g''] (w_tty_mode w) = ((True, out), w_tty_mode w)"
    "utf8_valid out" and again: "\<forall>m'. snd (w_stty w [trim out] m') = w_tty_mode w"
    unfolding stty_law_def by blast
  obtain o1 w1 where 1: "tty_open w = (o1, w1)" by fastforce
  have m1: "w_tty_mode w1 = w_tty_mode w" "w_stty w1 = w_stty w" "no_faults w1"
    using keepsD [OF keeps_mode(6) 1] keepsD [OF keeps_streams(4) 1] nf
    by (auto simp: same_mode_def no_faults_looks)
  let ?w2 = "tick (w1\<lparr>w_tty_mode := w_tty_mode w\<rparr>)"
  have 2: "stty [ascii ''-g''] w1 = (Ok (trim out), ?w2)"
    using g m1 by (simp add: stty_runs)
  obtain r3 w3 where 3: "stty raw_arguments ?w2 = (r3, w3)" by fastforce
  then have m3: "w_stty w3 = w_stty w" "no_faults w3"
    using m1 keepsD [OF keeps_stty(1) 3] by (auto simp: stty_runs no_faults_looks no_faults_def)
  obtain r4 w4 where 4: "restore_stty (trim out) w3 = (r4, w4)" by fastforce
  have m4: "r4 = Ok ()" "w_tty_mode w4 = w_tty_mode w"
    using restore_stty_mode [OF m3(2) _ 4] again m3(1) by auto
  have m5: "w_stty w4 = w_stty w" "no_faults w4"
    using 4 m3 by (auto simp: restore_stty_def run_stty_runs bind_st_def attempt_def no_faults_def)
  show ?thesis
  proof (cases o1)
    case (Inl e)
    with run 1 m1 show ?thesis by (auto simp: raw_enter_def)
  next
    case (Inr u)
    with run 1 2 3 4 m3 m4 m5 again show ?thesis
      by (cases r3) (auto simp: raw_enter_def bind_st_def attempt_def)
  qed
qed

lemma choose_from_list_restores:
  assumes law: "stty_law (w_stty w)" and nf: "no_faults w"
    and run: "choose_from_list title choices st w = (r, w')"
  shows "w_tty_mode w' = w_tty_mode w"
proof (cases "choices = []")
  case False
  obtain t w1 where 1: "raw_enter w = (t, w1)" by fastforce
  from raw_enter_mode [OF law nf 1] have s1: "w_stty w1 = w_stty w" "no_faults w1" by auto
  show ?thesis
  proof (cases t)
    case (Inl e)
    with run 1 False have "choose_by_number title choices st w1 = (r, w')"
      by (simp add: choose_from_list_def bind_st_def attempt_def)
    from keepsD [OF keeps_mode_picker(3) this] raw_enter_mode [OF law nf 1] Inl
    show ?thesis by (simp add: same_mode_def)
  next
    case (Inr saved)
    obtain q w2 where 2: "raw_picker title choices st w1 = (q, w2)" by fastforce
    have "keeps same_mode (raw_picker title choices st)" "keeps looks (raw_picker title choices st)"
      unfolding raw_picker_def by (intro moding.keeps_rules looking.keeps_rules; simp)+
    from keepsD [OF this(1) 2] keepsD [OF this(2) 2] s1
    have s2: "w_stty w2 = w_stty w" "no_faults w2" by (auto simp: same_mode_def no_faults_looks)
    obtain r3 w3 where 3: "restore_stty saved w2 = (r3, w3)" by fastforce
    have "w' = w3" using run 1 2 3 Inr False restore_stty_mode(1) [OF s2(2) _ 3]
        raw_enter_mode [OF law nf 1] s2(1)
      by (auto simp: choose_from_list_def bind_st_def attempt_def split: sum.splits)
    with restore_stty_mode(2) [OF s2(2) _ 3] raw_enter_mode [OF law nf 1] Inr s2(1)
    show ?thesis by simp
  qed
qed (use run in \<open>simp add: choose_from_list_def\<close>)

section \<open>Properties of the terminal\<close>

text \<open>C29: The picker moves one line per arrow and wraps round at both ends: after any sequence
  of moves and of keys it ignores, the entry that Enter takes is the first one shifted by the
  number of moves down less the number of moves up, modulo the number of entries.\<close>

theorem picker_follows_keys:
  assumes "types w (concat (map key_bytes ks) @ key_bytes KeySelect @ rest)"
    and "set ks \<subseteq> {KeyUp, KeyDown, KeyIgnore}" and "choices \<noteq> []"
  shows "\<exists>i w'. picker_loop st choices 0 w = (Ok (Some i), w') \<and> types w' rest \<and>
    i < length choices \<and>
    int i = (int (count_list ks KeyDown) - int (count_list ks KeyUp)) mod int (length choices)"
proof -
  have n: "0 < length choices" using assms(3) by simp
  from picker_loop_keys [OF assms(1,2), of st choices 0] obtain w' where
    "picker_loop st choices 0 w = (Ok (Some (fold (press (length choices)) ks 0)), w')" "types w' rest"
    by blast
  moreover have i: "int (fold (press (length choices)) ks 0) =
      (int (count_list ks KeyDown) - int (count_list ks KeyUp)) mod int (length choices)"
    using fold_press [OF n assms(2)] by simp
  moreover from this have "int (fold (press (length choices)) ks 0) < int (length choices)"
    using n by simp
  ultimately show ?thesis by auto
qed

text \<open>Witness of C29: up from the first of three entries is the last one.\<close>

theorem picker_follows_keys_witness:
  "\<exists>w'. picker_loop \<lparr>ts_color = False\<rparr> [[0x61], [0x62], [0x63]] 0
      (sample_world\<lparr>w_tty := Some [0x1B, 0x5B, 0x41, 0x0D]\<rparr>) = (Ok (Some 2), w')"
proof -
  have "types (sample_world\<lparr>w_tty := Some [0x1B, 0x5B, 0x41, 0x0D]\<rparr>)
      (concat (map key_bytes [KeyUp]) @ key_bytes KeySelect @ [])"
    by (simp add: types_def no_faults_def sample_world_def)
  from picker_follows_keys [OF this, of "[[0x61], [0x62], [0x63]]" "\<lparr>ts_color = False\<rparr>"]
  show ?thesis by auto
qed

text \<open>C28: Whatever is chosen, cancelled or fails, the terminal ends in the mode it had: raw mode
  is entered only with the old mode saved, and it is restored on every way out.\<close>

theorem terminal_restored:
  assumes "stty_law (w_stty w)" and "no_faults w"
    and "choose_from_list title choices st w = (r, w')"
  shows "w_tty_mode w' = w_tty_mode w"
  using assms by (rule choose_from_list_restores)

text \<open>A terminal for the witness: a mode is named by its bytes in hexadecimal.\<close>

definition hex_stty :: "bytes list \<Rightarrow> bytes \<Rightarrow> (bool \<times> bytes) \<times> bytes" where
  "hex_stty arguments m =
     (if arguments = [ascii ''-g''] then ((True, hex_encode m), m)
      else if length arguments = 1 then
        (case hex_decode (length (hd arguments) div 2) (hd arguments) of
           Inl _ \<Rightarrow> ((False, []), m) | Inr m' \<Rightarrow> ((True, []), m'))
      else ((True, []), [0]))"

lemma hex_encode_visible: "b \<in> set (hex_encode m) \<Longrightarrow> b < 0x80 \<and> 0x2F < b"
proof -
  have "\<forall>n\<in>set [0..<16]. hex_alphabet ! n < 0x80 \<and> 0x2F < hex_alphabet ! n"
    by (simp add: hex_alphabet_def ascii_def upt_rec)
  then have a: "n < 16 \<Longrightarrow> hex_alphabet ! n < 0x80 \<and> 0x2F < hex_alphabet ! n" for n by simp
  show "b \<in> set (hex_encode m) \<Longrightarrow> b < 0x80 \<and> 0x2F < b"
    using a [OF nibble_bounds(1)] a [OF nibble_bounds(2)] by (induction m) auto
qed

lemma trim_hex: "trim (hex_encode m) = hex_encode m"
proof -
  have "\<not> prefix c (hex_encode m) \<and> \<not> suffix c (hex_encode m)" if "c \<in> set white_space" for c
  proof -
    from that have "c \<noteq> []" "\<not> (hd c < 0x80 \<and> 0x2F < hd c)" by (auto simp: white_space_def)
    then have "\<not> set c \<subseteq> set (hex_encode m)" using hex_encode_visible [of "hd c" m] by (cases c) auto
    then show ?thesis by (blast dest: set_mono_prefix set_mono_suffix)
  qed
  then have "find (\<lambda>c. prefix c (hex_encode m)) white_space = None"
    "find (\<lambda>c. suffix c (hex_encode m)) white_space = None"
    by (auto simp: find_None_iff)
  then show ?thesis
    by (simp add: trim_def trim_start.simps [of "hex_encode m"] trim_end.simps [of "hex_encode m"]
        starting_white_def ending_white_def)
qed

lemma hex_stty_law: "stty_law hex_stty"
proof -
  have "hex_encode m \<noteq> ascii ''-g''" for m
  proof
    assume "hex_encode m = ascii ''-g''"
    then have "0x2D \<in> set (hex_encode m)" by (simp add: ascii_def)
    from hex_encode_visible [OF this] show False by simp
  qed
  moreover have "utf8_valid (hex_encode m)" for m
    by (rule utf8_valid_ascii) (auto dest: hex_encode_visible)
  ultimately show ?thesis
    by (auto simp: stty_law_def hex_stty_def trim_hex hex_decode_encode)
qed

text \<open>Witness of C28: the terminal is closed in the middle of an arrow key.\<close>

theorem terminal_restored_witness:
  "w_tty_mode (snd (choose_from_list (ascii ''Choose'') [[0x61], [0x62]] \<lparr>ts_color = False\<rparr>
      (sample_world\<lparr>w_tty := Some [0x1B, 0x5B], w_tty_mode := [7], w_stty := hex_stty\<rparr>))) = [7]"
proof -
  let ?w = "sample_world\<lparr>w_tty := Some [0x1B, 0x5B], w_tty_mode := [7], w_stty := hex_stty\<rparr>"
  have "stty_law (w_stty ?w)" "no_faults ?w"
    using hex_stty_law by (simp_all add: no_faults_def sample_world_def)
  note restored = terminal_restored [OF this, of "ascii ''Choose''" "[[0x61], [0x62]]"
      "\<lparr>ts_color = False\<rparr>"]
  show ?thesis by (subst restored [OF prod.collapse [symmetric]]) simp
qed

text \<open>What is typed line by line, ended by a line with a single dot, is the letter: every line
  with its newline, nothing else, and the lines after the dot stay for later.\<close>

theorem typed_letter:
  assumes "types w (concat (map (\<lambda>l. l @ [newline]) ls) @ ascii ''.'' @ newline # rest)"
    and "list_all letter_line ls"
    and "length (concat (map (\<lambda>l. l @ [newline]) ls)) \<le> MAX_BODY_LEN"
  shows "\<exists>w'. read_multiline_letter w = (Ok (concat (map (\<lambda>l. l @ [newline]) ls)), w') \<and> types w' rest"
proof -
  have "tty_open w = (Ok (), tick w)"
    using assms(1) by (simp add: tty_open_def os_step_def types_def)
  with multiline_loop_runs [of "tick w" ls rest "[]"] assms show ?thesis
    by (simp add: read_multiline_letter_def terminal_input_def)
qed

text \<open>For instance, one line, and one more after the dot.\<close>

theorem typed_letter_example:
  "\<exists>w'. read_multiline_letter (sample_world\<lparr>w_tty := Some (ascii ''hi'' @ newline # ascii ''.'' @
      newline # ascii ''x'')\<rparr>) = (Ok (ascii ''hi'' @ [newline]), w') \<and> types w' (ascii ''x'')"
proof -
  let ?w = "sample_world\<lparr>w_tty := Some (ascii ''hi'' @ newline # ascii ''.'' @ newline # ascii ''x'')\<rparr>"
  have "types ?w (concat (map (\<lambda>l. l @ [newline]) [ascii ''hi'']) @ ascii ''.'' @ newline # ascii ''x'')"
    by (simp add: types_def no_faults_def sample_world_def)
  moreover have "list_all letter_line [ascii ''hi'']"
    by (simp add: letter_line_def trim_line_end_def ascii_def)
  ultimately show ?thesis
    using typed_letter [of ?w "[ascii ''hi'']" "ascii ''x''"] by (simp add: MAX_BODY_LEN_def)
qed

text \<open>C36: The menu cannot spin: every turn that is answered, the last one included, uses up input
  of the terminal, so on a terminal with nothing left it ends, with an error.\<close>

theorem menu_ends:
  assumes "tty_left w = 0"
  shows "\<exists>e w'. interactive_loop P sp st w = (Err e, w')"
proof -
  obtain q w1 where t: "menu_turn P sp st w = (q, w1)" by fastforce
  show ?thesis
  proof (cases q)
    case (Inl e)
    with t show ?thesis by (simp add: interactive_loop.simps [of P sp st w])
  next
    case (Inr choice)
    with t menu_turn_progress(1) have "tty_left w1 < tty_left w" by blast
    with assms show ?thesis by simp
  qed
qed

text \<open>Witness of C36: a terminal that is closed.\<close>

theorem menu_ends_witness:
  "\<exists>e w'. interactive_loop sample_primitives (from_root [RootDir]) \<lparr>ts_color = True\<rparr>
     (sample_world\<lparr>w_tty := Some []\<rparr>) = (Err e, w')"
  using menu_ends [of "sample_world\<lparr>w_tty := Some []\<rparr>" sample_primitives "from_root [RootDir]"
      "\<lparr>ts_color = True\<rparr>"]
  by (simp add: tty_left_def)

text \<open>C40: A lone Escape takes the two bytes after it with it, whatever they are but the end of an
  arrow key: a Ctrl-C that follows is not seen.\<close>

theorem escape_swallows:
  assumes "types w (escape # b # c # rest)" and "b \<notin> {0x5B, 0x4F}"
  shows "\<exists>w'. read_picker_key w = (Ok KeyIgnore, w') \<and> types w' rest"
proof -
  let ?v = "tick (w\<lparr>w_tty := Some (b # c # rest)\<rparr>)"
  have 1: "tty_read_exact 1 w = (Ok [escape], ?v)"
    using tty_read_exact_runs [of w "[escape]" "b # c # rest" 1] assms(1) by simp
  have v: "types ?v ([b, c] @ rest)" using assms(1) by (simp add: types_def)
  note 2 = tty_read_exact_runs [OF v, of 2]
  have "read_picker_key w = (Ok KeyIgnore, tick (?v\<lparr>w_tty := Some rest\<rparr>))"
    using 1 2 assms(2) by (simp add: read_picker_key_def decode_key_def)
  then show ?thesis using assms(1) by (simp add: types_def)
qed

text \<open>Witness of C40: Escape, Ctrl-C, Enter is no key at all.\<close>

theorem escape_swallows_witness:
  "\<exists>w'. read_picker_key (sample_world\<lparr>w_tty := Some [0x1B, 0x03, 0x0D]\<rparr>) = (Ok KeyIgnore, w')"
  using escape_swallows [of "sample_world\<lparr>w_tty := Some [0x1B, 0x03, 0x0D]\<rparr>" "0x03" "0x0D" "[]"]
  by (auto simp: types_def no_faults_def sample_world_def)

end
