(* ===== verification/Program.thy ===== *)
theory Program
  imports Interactive
begin

text \<open>
  \<open>run\<close> of \<open>src/src/cli.rs\<close> and \<open>src/src/main.rs\<close>: one run of the program, from its
  arguments to its exit status, and sessions of many runs on the same machine.
\<close>

section \<open>One run\<close>

definition run :: "primitives \<Rightarrow> unit io" where
  "run P =
     bind_st (get_state w_args) (\<lambda>args.
     case drop 1 args of
       [] \<Rightarrow>
         bind_st (get_state (\<lambda>w. w_stdin_tty w \<and> w_stdout_tty w)) (\<lambda>tty.
         if tty then interactive P else usage)
     | command # remaining \<Rightarrow>
         (case to_str command of
            None \<Rightarrow> usage
          | Some command \<Rightarrow>
              bind_st discover (\<lambda>paths.
              if command = ascii ''init'' then command_init P paths remaining
              else if command = ascii ''identity'' then command_identity P paths remaining
              else if command = ascii ''trust'' then command_trust P paths remaining
              else if command = ascii ''seal'' then command_seal P paths remaining
              else if command = ascii ''open'' then command_open P paths remaining
              else if command = ascii ''help'' \<or> command = ascii ''--help'' \<or> command = ascii ''-h''
              then bind_st (println (ascii USAGE)) (\<lambda>_. ret ())
              else usage)))"

definition main_program :: "primitives \<Rightarrow> world \<Rightarrow> nat \<times> world" where
  "main_program P w =
     (case run P w of
        (Inr _, w') \<Rightarrow> (0, w')
      | (Inl e, w') \<Rightarrow> (1, snd (eprintln (ascii (display_error (w_show_io w') e)) w')))"

lemma keeps_discover [simp]: "keeps looks discover"
  unfolding discover_def by (intro looking.keeps_rules) auto

lemma keeps_interactive [simp]: "keeps (spares is_blob) (interactive P)"
  unfolding interactive_def
  by (intro sparing.keeps_rules; simp add: keeps_spares keeps_looks_extends)

lemma keeps_run [simp]: "keeps (spares is_blob) (run P)"
proof -
  have "keeps (spares is_blob) (case xs of [] \<Rightarrow> m | x # ys \<Rightarrow> f x ys)"
    if "keeps (spares is_blob) m" "\<And>x ys. keeps (spares is_blob) (f x ys)"
    for m :: "unit io" and f :: "bytes \<Rightarrow> bytes list \<Rightarrow> unit io" and xs
    using that by (cases xs) auto
  note list = this
  show ?thesis
    unfolding run_def
    by (intro list sparing.keeps_rules; simp add: keeps_spares keeps_looks_extends)
qed

lemma main_program_spares: "spares is_blob w (snd (main_program P w))"
proof -
  obtain r v where "run P w = (r, v)" by fastforce
  moreover from this have "spares is_blob w v" by (rule keepsD [OF keeps_run])
  moreover have "spares is_blob v (snd (eprintln bs v))" for bs
    using keeps_eprint(2) by (auto simp: keeps_def intro: looks_extends extends_spares)
  ultimately show ?thesis
    by (cases r) (auto simp: main_program_def intro: sparing.frame_trans)
qed

section \<open>Sessions\<close>

text \<open>
  A machine on which the program is run again and again. Between the runs everything but the
  tree may be different: the arguments, the environment, what is typed, the randomness, the
  faults to come; and whoever else writes to the tree may add to it.
\<close>

inductive session :: "primitives \<Rightarrow> world \<Rightarrow> world \<Rightarrow> bool" for P where
  start: "session P w w"
| invoke: "session P w v \<Longrightarrow> main_program P v = (status, u) \<Longrightarrow> session P w u"
| others: "session P w v \<Longrightarrow> fs_extends (w_fs v) (w_fs u) \<Longrightarrow> w_cwd u = w_cwd v \<Longrightarrow> session P w u"

inductive_cases session_cases: "session P w u"

text \<open>The part of \<open>spares\<close> that is about the tree, which a session keeps.\<close>

definition tree_spares :: "world \<Rightarrow> world \<Rightarrow> bool" where
  "tree_spares w w' \<longleftrightarrow> w_cwd w' = w_cwd w \<and> fs_spares is_blob (w_fs w) (w_fs w')"

interpretation tree: frame tree_spares
  by unfold_locales (auto simp: tree_spares_def fs_extends_spares intro: fs_spares_trans)

lemma spares_tree: "spares is_blob w w' \<Longrightarrow> tree_spares w w'"
  by (simp add: spares_def tree_spares_def same_process_def)

lemma session_tree_spares: "session P w u \<Longrightarrow> tree_spares w u"
proof (induction rule: session.induct)
  case (invoke w v status u)
  from main_program_spares [of v P] invoke(2) have "tree_spares v u"
    by (auto intro: spares_tree)
  with invoke(3) show ?case by (rule tree.frame_trans)
next
  case (others w v u)
  then have "tree_spares v u" by (simp add: tree_spares_def fs_extends_spares)
  with others(4) show ?case by (rule tree.frame_trans)
qed (rule tree.frame_refl)

lemma file_at_tree_spares:
  assumes "tree_spares w w'" and "file_at w p = Some c" and "\<not> is_blob c"
  shows "file_at w' p = Some c"
  using assms lookup_node_spares [of is_blob "w_fs w" "w_fs w'" False "w_cwd w" p]
  by (fastforce simp: file_at_iff tree_spares_def)

lemma session_file_at:
  "session P w u \<Longrightarrow> file_at w p = Some c \<Longrightarrow> \<not> is_blob c \<Longrightarrow> file_at u p = Some c"
  using session_tree_spares file_at_tree_spares by blast

text \<open>
  So the pins and the public identity are written once in the life of a machine, too, not
  only in that of a process.
\<close>

interpretation machine_pins: write_once tree_spares "pinned P sp" "puts_pin P sp" "gets_pin P sp"
  no_faults for P sp
proof
  show "pinned P sp w' k = Some v" if "tree_spares w w'" "pinned P sp w k = Some v" for w w' k v
    using that file_at_tree_spares profile_not_blob by (fastforce simp: pinned_iff)
qed (use pins.puts_view pins.gets_view pins.view_gets spares_tree in blast)+

interpretation machine_identity: write_once tree_spares "public_identity P sp" "puts_identity P sp"
  "gets_identity P sp" no_faults for P sp
proof
  show "public_identity P sp w' k = Some v"
    if "tree_spares w w'" "public_identity P sp w k = Some v" for w w' k v
    using that file_at_tree_spares profile_not_blob by (fastforce simp: public_identity_iff)
qed (use identities.puts_view identities.gets_view identities.view_gets spares_tree in blast)+

end
