(* ===== verification/Frames.thy ===== *)
theory Frames
  imports Program
begin

text \<open>
  What every system call of the program keeps, every run keeps. The locale \<open>os_frame\<close> is the
  interface between the calls and the program: its assumptions name each call that changes
  the tree or the output, with the arguments the program gives it; its lemmas follow the code
  up to \<open>main\<close>, on every path, errors and faults included. It is interpreted for the modes of
  files and for the well-formedness of the tree.
\<close>

locale os_frame = frame R for R :: "world \<Rightarrow> world \<Rightarrow> bool" +
  assumes looks_kept: "looks w w' \<Longrightarrow> R w w'"
    and stdout_kept [simp]: "keeps R (stdout_write_all b)"
    and println_kept [simp]: "keeps R (println b)"
    and create_dir_kept [simp]: "keeps R (create_dir p)"
    and create_file_kept [simp]: "keeps R (file_create_new file_mode p)"
    and write_kept [simp]: "keeps R (file_write_all l b)"
    and chmod_kept [simp]: "keeps R (set_private_permissions p)"
    and remove_kept [simp]: "keeps R (remove_file p)"
begin

lemma looking_kept [simp]: "keeps looks m \<Longrightarrow> keeps R m"
  by (auto simp: keeps_def intro: looks_kept)

lemma storage_kept [simp]:
  "keeps R (write_new_private p b)" "keeps R (create_private_directory p)" "keeps R (consume_blob p)"
  "keeps R (trust_profile P sp src a)"
proof -
  show w: "keeps R (write_new_private q c)" for q c
    unfolding write_new_private_def by (intro keeps_rules) auto
  show d: "keeps R (create_private_directory q)" for q
    unfolding create_private_directory_def by (intro keeps_rules) auto
  show "keeps R (consume_blob p)" unfolding consume_blob_def by (intro keeps_rules) auto
  show "keeps R (trust_profile P sp src a)"
    unfolding trust_profile_def Let_def by (intro keeps_rules w d) auto
qed

lemma initialize_kept [simp]: "keeps R (initialize P sp u)"
  unfolding initialize_def by (intro keeps_rules) auto

lemma create_dir_all_kept [simp]: "keeps R (create_dir_all p)"
proof (induction p rule: create_dir_all.induct)
  case (1 p)
  show ?case
  proof (cases "p = []")
    case False
    have rest: "keeps R (case path_parent p of None \<Rightarrow> throw (Io OtherKind)
      | Some q \<Rightarrow> bind_st (create_dir_all q) (\<lambda>_.
          bind_st (attempt (create_dir p)) (\<lambda>r.
          if r = Ok () then ret ()
          else bind_st (path_is_dir p) (\<lambda>d. if d then ret () else lift_result r))))"
      using 1 [OF False] by (cases "path_parent p") (auto intro!: keeps_rules)
    show ?thesis
      by (subst create_dir_all.simps) (intro keeps_rules rest; simp)
  qed (simp only: create_dir_all.simps [of "[]"] simp_thms if_True keeps_ret)
qed

lemma finish_kept [simp]:
  "keeps R (finish_open keep p letter)" "keeps R (finish_wizard_open keep p letter st)"
  unfolding finish_open_def finish_wizard_open_def by (intro keeps_rules; simp)+

lemma commands_kept [simp]:
  "keeps R (command_init P sp args)" "keeps R (command_identity P sp args)"
  "keeps R (command_trust P sp args)" "keeps R (command_seal P sp args)"
  "keeps R (command_open P sp args)"
  unfolding command_init_def command_identity_def command_trust_def command_seal_def
    command_open_def Let_def
  by (intro keeps_rules; simp)+

lemma wizards_kept [simp]:
  "keeps R (wizard_init P sp st)" "keeps R (wizard_export P sp st)"
  "keeps R (wizard_trust P sp st)" "keeps R (wizard_seal P sp st)"
  "keeps R (wizard_open P sp st)"
proof -
  have "keeps R (prepare_unlock_parent st u d)" for u d
    unfolding prepare_unlock_parent_def Let_def by (intro keeps_rules) auto
  then show "keeps R (wizard_init P sp st)"
    unfolding wizard_init_def by (intro keeps_rules) auto
  show "keeps R (wizard_export P sp st)" "keeps R (wizard_trust P sp st)"
    "keeps R (wizard_seal P sp st)" "keeps R (wizard_open P sp st)"
    unfolding wizard_export_def wizard_trust_def wizard_seal_def wizard_open_def Let_def
    by (intro keeps_rules; simp)+
qed

lemma menu_action_kept:
  "menu_action P sp st choice = Inl action \<Longrightarrow> keeps R action"
  "menu_action P sp st choice = Inr finish \<Longrightarrow> keeps R finish"
  using keeps_menu_action(2) [of P sp st choice finish]
  by (auto simp: menu_action_def split: if_splits)

lemma report_action_kept: "keeps R action \<Longrightarrow> keeps R (report_action st action)"
  unfolding report_action_def by (intro keeps_rules; simp)

lemma interactive_kept [simp]: "keeps R (interactive P)"
proof -
  have "keeps R (interactive_loop P sp st)" for sp st
    by (rule interactive_loop_frame [OF frame_axioms])
      (auto dest: menu_action_kept intro: report_action_kept)
  then show ?thesis unfolding interactive_def by (intro keeps_rules) auto
qed

lemma run_kept: "keeps R (run P)"
proof -
  have list: "keeps R (case xs of [] \<Rightarrow> m | x # ys \<Rightarrow> f x ys)"
    if "keeps R m" "\<And>x ys. keeps R (f x ys)"
    for m :: "unit io" and f :: "bytes \<Rightarrow> bytes list \<Rightarrow> unit io" and xs
    using that by (cases xs) auto
  show ?thesis unfolding run_def by (intro list keeps_rules; simp)
qed

lemma main_program_kept: "main_program P w = (status, w') \<Longrightarrow> R w w'"
proof -
  assume main: "main_program P w = (status, w')"
  obtain r v where v: "run P w = (r, v)" by fastforce
  with run_kept have "R w v" by (rule keepsD)
  moreover have "R v (snd (eprintln bs v))" for bs
    using keeps_eprint(2) by (auto simp: keeps_def intro: looks_kept)
  ultimately show "R w w'"
    using main v by (cases r) (auto simp: main_program_def intro: frame_trans)
qed

end

section \<open>The modes of files\<close>

text \<open>
  Every file is one that was there, with the mode it had, or has no permission for the group
  or for others.
\<close>

definition private_mode :: "mode \<Rightarrow> bool" where
  "private_mode m \<longleftrightarrow> m AND NOT file_mode = 0"

definition private_files :: "world \<Rightarrow> world \<Rightarrow> bool" where
  "private_files w w' \<longleftrightarrow>
     (\<forall>l m c. fs_get (w_fs w') l = Some (FileNode m c) \<longrightarrow>
        private_mode m \<or> (\<exists>c'. fs_get (w_fs w) l = Some (FileNode m c')))"

lemma private_filesI:
  "(\<And>l m c. fs_get (w_fs w') l = Some (FileNode m c) \<Longrightarrow>
     private_mode m \<or> (\<exists>c'. fs_get (w_fs w) l = Some (FileNode m c'))) \<Longrightarrow> private_files w w'"
  by (auto simp: private_files_def)

lemma private_mode_file [simp]: "private_mode file_mode" "private_mode (file_mode AND NOT u)"
proof -
  have "(file_mode AND NOT u) AND NOT file_mode = (file_mode AND NOT file_mode) AND NOT u"
    by (simp only: ac_simps)
  then show "private_mode (file_mode AND NOT u)" by (simp add: private_mode_def)
qed (simp add: private_mode_def)

lemma private_files_os_call:
  assumes "\<And>w r fs' l m c. f w = (r, fs') \<Longrightarrow> fs_get fs' l = Some (FileNode m c) \<Longrightarrow>
     private_mode m \<or> (\<exists>c'. fs_get (w_fs w) l = Some (FileNode m c'))"
  shows "keeps private_files (os_call f)"
proof (intro keepsI private_filesI)
  fix w r w' l m c
  assume run: "os_call f w = (r, w')" and at: "fs_get (w_fs w') l = Some (FileNode m c)"
  obtain q fs' where f: "f w = (q, fs')" by fastforce
  with run have "w_fs w' = w_fs w \<or> w_fs w' = fs'"
    by (auto simp: os_call_def split: option.splits sum.splits)
  then show "private_mode m \<or> (\<exists>c'. fs_get (w_fs w) l = Some (FileNode m c'))"
    using at assms [OF f] by auto
qed

text \<open>
  The permissions are set to those of a directory only for a directory: the path is then no
  link, so the call that follows links meets the same node.
\<close>

lemma set_private_permissions_private: "keeps private_files (set_private_permissions p)"
proof (intro keepsI private_filesI)
  fix w r w' l m c
  assume run: "set_private_permissions p w = (r, w')" and at: "fs_get (w_fs w') l = Some (FileNode m c)"
  have "w_fs w' = w_fs w \<or> (\<exists>l0 n0 l1 n1 k. lookup_node (w_fs w) False (w_cwd w) p = Inr (l0, n0) \<and>
      lookup_node (w_fs w) True (w_cwd w) p = Inr (l1, n1) \<and> (\<not> is_dir_node n0 \<longrightarrow> k = file_mode) \<and>
      w_fs w' = fs_put l1 (set_node_mode k n1) (w_fs w))"
    using run
    by (auto simp: set_private_permissions_def Let_def bind_st_def symlink_metadata_def os_query_def
        set_permissions_def os_call_def fs_chmod_def map_sum_Inr_iff
        split: prod.splits option.splits sum.splits if_splits)
  then show "private_mode m \<or> (\<exists>c'. fs_get (w_fs w) l = Some (FileNode m c'))"
  proof (elim disjE exE conjE)
    fix l0 n0 l1 n1 k
    assume l0: "lookup_node (w_fs w) False (w_cwd w) p = Inr (l0, n0)"
      and l1: "lookup_node (w_fs w) True (w_cwd w) p = Inr (l1, n1)"
      and k: "\<not> is_dir_node n0 \<longrightarrow> k = file_mode"
      and w': "w_fs w' = fs_put l1 (set_node_mode k n1) (w_fs w)"
    have "n1 = n0" if "is_dir_node n0"
      using lookup_node_follow [OF l0] l1 that by (cases n0) auto
    with k have "is_dir_node n1 \<or> k = file_mode" by auto
    then show ?thesis using at w' by (cases n1) (auto split: if_splits)
  qed (use at in simp)
qed

interpretation modes: os_frame private_files
proof
  show "private_files u w" if "private_files u v" "private_files v w" for u v w
    using that unfolding private_files_def by blast
  show "private_files w w'" if "looks w w'" for w w'
    using that by (simp add: private_files_def looks_def)
  show "keeps private_files (stdout_write_all b)" "keeps private_files (println b)" for b
    by (auto intro!: keepsI simp: private_files_def stdout_write_all_def println_def
        split: option.splits)
  show "keeps private_files (create_dir p)" for p
    unfolding create_dir_def
    by (rule private_files_os_call) (auto simp: fs_create_new_def split: prod.splits sum.splits if_splits)
  show "keeps private_files (file_create_new file_mode p)" for p
    unfolding file_create_new_def
    by (rule private_files_os_call) (auto simp: fs_create_new_def split: sum.splits if_splits)
  show "keeps private_files (file_write_all l b)" for l b
    by (auto intro!: keepsI simp: private_files_def file_write_all_def fs_append_def
        split: option.splits node.splits if_splits)
  show "keeps private_files (remove_file p)" for p
    unfolding remove_file_def
    by (rule private_files_os_call)
      (auto simp: fs_unlink_def split: sum.splits prod.splits if_splits)
qed (auto simp: private_files_def set_private_permissions_private)

section \<open>Well-formed trees\<close>

definition tidy :: "world \<Rightarrow> bool" where
  "tidy w \<longleftrightarrow> fs_ok (w_fs w) \<and> is_dir_at (w_fs w) (w_cwd w)"

definition stays_tidy :: "world \<Rightarrow> world \<Rightarrow> bool" where
  "stays_tidy w w' \<longleftrightarrow> w_cwd w' = w_cwd w \<and> (tidy w \<longrightarrow> tidy w')"

lemma stays_tidy_os_call:
  assumes "\<And>w r fs'. f w = (r, fs') \<Longrightarrow> fs_ok (w_fs w) \<Longrightarrow> is_dir_at (w_fs w) (w_cwd w) \<Longrightarrow>
    fs_ok fs' \<and> is_dir_at fs' (w_cwd w)"
  shows "keeps stays_tidy (os_call f)"
proof (rule keepsI)
  fix w r w'
  assume run: "os_call f w = (r, w')"
  obtain q fs' where f: "f w = (q, fs')" by fastforce
  with run have "w_cwd w' = w_cwd w" "w_fs w' = w_fs w \<or> w_fs w' = fs'"
    by (auto simp: os_call_def split: option.splits sum.splits)
  then show "stays_tidy w w'"
    using assms [OF f] by (auto simp: stays_tidy_def tidy_def)
qed

lemma is_dir_at_extends: "fs_extends fs fs' \<Longrightarrow> is_dir_at fs l \<Longrightarrow> is_dir_at fs' l"
  by (auto simp: is_dir_at_iff dest: fs_extends_get)

lemma is_dir_at_unlink: "fs_unlink cwd p fs = (r, fs') \<Longrightarrow> is_dir_at fs l \<Longrightarrow> is_dir_at fs' l"
  by (auto simp: fs_unlink_def is_dir_at_def lookup_node_def
      split: sum.splits prod.splits option.splits if_splits)

lemma is_dir_at_append: "is_dir_at fs k \<Longrightarrow> is_dir_at (fs_append l b fs) k"
  by (auto simp: is_dir_at_iff fs_append_def split: option.splits node.splits)

lemma keeps_tidy_calls:
  "keeps stays_tidy (create_dir p)" "keeps stays_tidy (file_create_new m p)"
  "keeps stays_tidy (set_permissions p m)" "keeps stays_tidy (remove_file p)"
  unfolding create_dir_def file_create_new_def set_permissions_def remove_file_def
  by (rule stays_tidy_os_call;
      auto dest: fs_ok_create_new fs_create_new_extends fs_ok_chmod fs_chmod_extends fs_ok_unlink
        is_dir_at_unlink is_dir_at_extends split: prod.splits)+

lemma looks_tidy: "looks w w' \<Longrightarrow> stays_tidy w w'"
  by (simp add: stays_tidy_def tidy_def looks_def same_process_def)

interpretation tidying: frame stays_tidy
  by unfold_locales (auto simp: stays_tidy_def)

interpretation trees: os_frame stays_tidy
proof
  show "keeps stays_tidy (stdout_write_all b)" "keeps stays_tidy (println b)" for b
    by (auto intro!: keepsI simp: stays_tidy_def tidy_def stdout_write_all_def println_def
        split: option.splits)
  show "keeps stays_tidy (file_write_all l b)" for l b
    by (auto intro!: keepsI simp: stays_tidy_def tidy_def file_write_all_def fs_ok_append
        is_dir_at_append split: option.splits)
  have "keeps looks (symlink_metadata p)" for p by simp
  then have "keeps stays_tidy (symlink_metadata p)" for p
    by (auto simp: keeps_def intro: looks_tidy)
  then show "keeps stays_tidy (set_private_permissions p)" for p
    unfolding set_private_permissions_def Let_def
    by (intro tidying.keeps_rules keeps_tidy_calls tidying.keeps_ret)
qed (auto simp: keeps_tidy_calls looks_tidy)

end
