(* ===== verification/Store_Runs.thy ===== *)
theory Store_Runs
  imports Store_Facts
begin

text \<open>
  Runs of the store that succeed, on machines without faults: writing a file into a directory
  that is there, and the whole of \<open>initialize\<close>, and the run of \<open>initialize\<close> in which the unlock
  key takes the place of the public identity.
\<close>

section \<open>Directories that are there\<close>

definition dir_at :: "world \<Rightarrow> path \<Rightarrow> loc \<Rightarrow> bool" where
  "dir_at w p l \<longleftrightarrow> p \<noteq> [] \<and> (\<exists>m. lookup_node (w_fs w) False (w_cwd w) p = Inr (l, DirNode m))"

lemma dir_at_real: "dir_at w p l \<Longrightarrow> real_dir w p"
  by (auto simp: dir_at_def real_dir_iff)

lemma dir_at_follow: "dir_at w p l \<Longrightarrow> \<exists>m. lookup_node (w_fs w) True (w_cwd w) p = Inr (l, DirNode m)"
  unfolding dir_at_def by (elim conjE exE, rule exI, rule lookup_node_follow) auto

lemma dir_at_tick [simp]: "dir_at (tick w) p l = dir_at w p l"
  by (simp add: dir_at_def)

lemma dir_at_extends: "extends w w' \<Longrightarrow> dir_at w p l \<Longrightarrow> dir_at w' p l"
  using lookup_node_extends [of "w_fs w" "w_fs w'" False "w_cwd w" p l]
  by (fastforce simp: dir_at_def extends_def same_process_def)

lemma real_dir_at: "real_dir w p \<Longrightarrow> p \<noteq> [] \<Longrightarrow> \<exists>l. dir_at w p l"
  by (auto simp: dir_at_def real_dir_iff)

text \<open>An entry of a directory, by its location.\<close>

lemma lookup_entry:
  assumes "dir_at w d l"
  shows "resolve (w_fs w) False (w_cwd w) (d @ [Normal n]) = Inr (l @ [n])"
    and "lookup_node (w_fs w) False (w_cwd w) (d @ [Normal n]) =
      (case fs_get (w_fs w) (l @ [n]) of None \<Rightarrow> Inl NotFoundKind | Some x \<Rightarrow> Inr (l @ [n], x))"
proof -
  from dir_at_follow [OF assms] obtain m
    where "lookup_node (w_fs w) True (w_cwd w) d = Inr (l, DirNode m)" by blast
  from lookup_node_child [OF this, of False n] show
    "resolve (w_fs w) False (w_cwd w) (d @ [Normal n]) = Inr (l @ [n])"
    "lookup_node (w_fs w) False (w_cwd w) (d @ [Normal n]) =
      (case fs_get (w_fs w) (l @ [n]) of None \<Rightarrow> Inl NotFoundKind | Some x \<Rightarrow> Inr (l @ [n], x))"
    by simp_all
qed

lemma file_at_entry:
  assumes "dir_at w d l"
  shows "file_at w (d @ [Normal n]) =
    (case fs_get (w_fs w) (l @ [n]) of Some (FileNode m c) \<Rightarrow> Some c | _ \<Rightarrow> None)"
  by (simp add: file_at_def lookup_entry(2) [OF assms] split: option.split node.split)

text \<open>Nothing in a directory is free that was taken, and of what was free only \<open>L\<close> is taken.\<close>

definition fills :: "loc set \<Rightarrow> world \<Rightarrow> world \<Rightarrow> bool" where
  "fills L w w' \<longleftrightarrow> extends w w' \<and>
     (\<forall>k. k \<notin> L \<longrightarrow> fs_get (w_fs w) k = None \<longrightarrow> fs_get (w_fs w') k = None)"

lemma fills_trans: "fills L u v \<Longrightarrow> fills M v w \<Longrightarrow> fills (L \<union> M) u w"
  by (auto simp: fills_def intro: extending.frame_trans)

lemma looks_fills: "looks w w' \<Longrightarrow> fills L w w'"
  by (auto simp: fills_def looks_extends) (simp add: looks_def)

lemma keeps_looks_fills: "keeps looks m \<Longrightarrow> m w = (r, w') \<Longrightarrow> fills {} w w'"
  by (auto intro: looks_fills keepsD)

lemma write_entry_runs:
  assumes nf: "no_faults w" and d: "dir_at w d l" and free: "fs_get (w_fs w) (l @ [n]) = None"
  shows "\<exists>w'. write_new_private (d @ [Normal n]) b w = (Ok (), w') \<and> fills {l @ [n]} w w'"
proof -
  have "real_dir w (parent_or_dot (d @ [Normal n]))"
    using d dir_at_real by (auto simp: parent_or_dot_def dir_at_def real_dir_iff)
  from write_new_private_runs [OF nf this lookup_entry(1) [OF d] free] obtain w' where
    w': "write_new_private (d @ [Normal n]) b w = (Ok (), w')" by blast
  from keepsD [OF keeps_write_new_private w'] have "extends w w'" .
  moreover have "fs_get (w_fs w') k = fs_get (w_fs w) k" if "k \<noteq> l @ [n]" for k
    using write_new_private_Ok [OF w'] lookup_entry(1) [OF d] that by auto
  ultimately show ?thesis using w' by (auto simp: fills_def)
qed

lemma private_directory_runs:
  assumes "no_faults w" and "dir_at w p l"
  shows "\<exists>w'. create_private_directory p w = (Ok (), w') \<and> fills {} w w'"
proof -
  from create_private_directory_runs [OF assms(1) dir_at_real [OF assms(2)]] obtain w' where
    "create_private_directory p w = (Ok (), w')"
    "\<forall>k. fs_get (w_fs w') k = None \<longleftrightarrow> fs_get (w_fs w) k = None" by blast
  then show ?thesis
    using keepsD [OF keeps_create_private_directory] by (fastforce simp: fills_def)
qed

section \<open>Initialisation\<close>

definition random_total :: "world \<Rightarrow> bool" where
  "random_total w \<longleftrightarrow> (\<forall>n. w_random w n \<noteq> None)"

lemma random_total_available: "random_total w \<Longrightarrow> random_available n w"
  by (simp add: random_total_def random_available_def)

lemma fills_keeps:
  assumes "fills L w w'"
  shows "no_faults w' = no_faults w" and "random_total w' = random_total w"
    and "dir_at w p l \<Longrightarrow> dir_at w' p l"
    and "k \<notin> L \<Longrightarrow> fs_get (w_fs w) k = None \<Longrightarrow> fs_get (w_fs w') k = None"
proof -
  from assms have x: "extends w w'" by (simp add: fills_def)
  then show "no_faults w' = no_faults w" by (rule no_faults_extends)
  from x show "random_total w' = random_total w"
    by (simp add: random_total_def extends_def same_process_def)
  show "dir_at w p l \<Longrightarrow> dir_at w' p l" using x by (rule dir_at_extends)
  show "k \<notin> L \<Longrightarrow> fs_get (w_fs w) k = None \<Longrightarrow> fs_get (w_fs w') k = None"
    using assms by (simp add: fills_def)
qed

lemma reject_existing_runs:
  assumes "no_faults w" and "dir_at w d l" and "fs_get (w_fs w) (l @ [n]) = None"
  shows "reject_existing (d @ [Normal n]) msg w = (Ok (), tick w)"
  using assms lookup_entry(2) [OF assms(2), of n]
  by (simp add: reject_existing_def bind_st_def attempt_def no_faults_call)

lemma random_key_runs:
  assumes "random_total w"
  shows "\<exists>k w'. random_array 32 w = (Ok k, w') \<and> length k = 32 \<and> fills {} w w'"
  using random_array_drawn0 [OF random_total_available [OF assms], of 1 32]
    keeps_looks_fills [OF keeps_random_array, of 32 w]
  by auto

lemma secrets_generate_runs:
  assumes "random_total w"
  shows "\<exists>s w'. secrets_generate P w = (Ok (s, secrets_profile P s), w') \<and> secrets_ok s \<and> fills {} w w'"
proof -
  have "random_array 32 w = (Ok (drawn 0 32 w), after_random 1 w)"
    "random_array 32 (after_random 1 w) = (Ok (drawn 1 32 w), after_random 2 w)"
    using random_array_drawn0 [OF random_total_available [OF assms], of 2 32]
      random_array_drawn [OF random_total_available [OF assms, of 2], of 1 32]
    by (simp_all add: numeral_2_eq_2)
  then have "secrets_generate P w =
      (let s = \<lparr>is_identity_secret = drawn 0 32 w, is_agreement_secret = drawn 1 32 w\<rparr>
       in Ok (s, secrets_profile P s), after_random 2 w)"
    by (simp add: secrets_generate_def Let_def protocol_consts)
  moreover from this have "fills {} w (after_random 2 w)"
    by (rule keeps_looks_fills [OF keeps_secrets_generate])
  ultimately show ?thesis by (auto simp: Let_def secrets_ok_def)
qed

lemma encrypt_identity_runs:
  assumes "aead_law P" and "secrets_ok s" and "length k = 32" and "random_total w"
  shows "\<exists>c w'. encrypt_private_identity P s k w = (Ok c, w') \<and> fills {} w w'"
proof -
  from encrypt_private_identity_runs [OF assms(1-3) random_total_available [OF assms(4), of 1]]
  obtain c where c: "encrypt_private_identity P s k w = (Ok c, after_random 1 w)" by auto
  have "keeps looks (encrypt_private_identity P s k)" by simp
  from keeps_looks_fills [OF this c] c show ?thesis by blast
qed

text \<open>
  With the directories in place, the three places free and no faults, \<open>initialize\<close> comes to its
  three writes, and nothing but permissions has changed so far.
\<close>

abbreviation initialize_writes ::
  "state_paths \<Rightarrow> path \<Rightarrow> bytes \<Rightarrow> public_profile \<Rightarrow> bytes \<Rightarrow> public_profile io" where
  "initialize_writes sp u key p c \<equiv>
     bind_st (write_new_private u (encode_unlock_key key)) (\<lambda>_.
     bind_st (write_new_private (sp_identity_public sp) (profile_encode p)) (\<lambda>_.
     bind_st (attempt (write_new_private (sp_identity_encrypted sp) c)) (\<lambda>r. case r of
       Inl error \<Rightarrow> bind_st (attempt (remove_file (sp_identity_public sp))) (\<lambda>_. throw error)
     | Inr _ \<Rightarrow> ret p)))"

lemma initialize_to_writes:
  assumes law: "aead_law P" and nf: "no_faults w" and rt: "random_total w"
    and outside: "\<not> path_starts_with (du @ [Normal un]) (sp_root sp)"
    and du: "dir_at w du lu" and root: "dir_at w (sp_root sp) lr"
    and di: "dir_at w di li" and contacts: "dir_at w (sp_contacts sp) lc"
    and pub: "sp_identity_public sp = di @ [Normal pn]"
    and enc: "sp_identity_encrypted sp = di @ [Normal en]"
    and free: "fs_get (w_fs w) (lu @ [un]) = None" "fs_get (w_fs w) (li @ [pn]) = None"
      "fs_get (w_fs w) (li @ [en]) = None"
  shows "\<exists>key s c v. length key = 32 \<and> fills {} w v \<and> initialize P sp (du @ [Normal un]) w =
    initialize_writes sp (du @ [Normal un]) key (secrets_profile P s) c v"
proof -
  define w0 where "w0 = tick (tick (tick (tick w)))"
  have t: "fills {} w w0" by (simp add: w0_def fills_def extends_def same_process_def)
  have 0: "dir_at w0 d l = dir_at w d l" "no_faults w0" "random_total w0"
    "fs_get (w_fs w0) k = fs_get (w_fs w) k" for d l k
    using nf rt by (simp_all add: w0_def dir_at_def random_total_def)
  have par: "ensure_real_directory (parent_or_dot (du @ [Normal un])) (tick (tick (tick w))) = (Ok (), w0)"
    using dir_at_real [OF du] du nf
    by (simp add: ensure_real_directory_Ok_iff parent_or_dot_def real_dir_iff dir_at_def w0_def)
  obtain w1 where 1: "create_private_directory (sp_root sp) w0 = (Ok (), w1)" "fills {} w0 w1"
    using private_directory_runs [OF 0(2)] 0(1) root by blast
  note k1 = fills_keeps [OF 1(2)]
  obtain w2 where 2: "create_private_directory di w1 = (Ok (), w2)" "fills {} w1 w2"
    using private_directory_runs [of w1 di li] k1 0 di by blast
  from fills_trans [OF 1(2) 2(2)] have f2: "fills {} w0 w2" by simp
  note k2 = fills_keeps [OF f2]
  obtain w3 where 3: "create_private_directory (sp_contacts sp) w2 = (Ok (), w3)" "fills {} w2 w3"
    using private_directory_runs [of w2 "sp_contacts sp" lc] k2 0 contacts by blast
  from fills_trans [OF f2 3(2)] have f3: "fills {} w0 w3" by simp
  note k3 = fills_keeps [OF f3]
  obtain key w4 where 4: "random_array 32 w3 = (Ok key, w4)" "length key = 32" "fills {} w3 w4"
    using random_key_runs [of w3] k3 0 by blast
  from fills_trans [OF f3 4(3)] have f4: "fills {} w0 w4" by simp
  note k4 = fills_keeps [OF f4]
  obtain s w5 where 5: "secrets_generate P w4 = (Ok (s, secrets_profile P s), w5)" "secrets_ok s"
    "fills {} w4 w5"
    using secrets_generate_runs [of w4 P] k4 0 by blast
  from fills_trans [OF f4 5(3)] have f5: "fills {} w0 w5" by simp
  note k5 = fills_keeps [OF f5]
  obtain c w6 where 6: "encrypt_private_identity P s key w5 = (Ok c, w6)" "fills {} w5 w6"
    using encrypt_identity_runs [OF law 5(2) 4(2), of w5] k5 0 by blast
  from fills_trans [OF t fills_trans [OF f5 6(2)]] have f6: "fills {} w w6" by simp
  have rej: "reject_existing (di @ [Normal pn]) m w = (Ok (), tick w)"
    "reject_existing (di @ [Normal en]) m (tick w) = (Ok (), tick (tick w))"
    "reject_existing (du @ [Normal un]) m' (tick (tick w)) = (Ok (), tick (tick (tick w)))" for m m'
    using reject_existing_runs [of _ di li] reject_existing_runs [of _ du lu] nf di du free by simp_all
  have parent: "path_parent (di @ [Normal pn]) = Some di" by simp
  have "initialize P sp (du @ [Normal un]) w =
      initialize_writes sp (du @ [Normal un]) key (secrets_profile P s) c w6"
    by (simp only: initialize_def outside if_False pub enc bind_st_Inr rej par parent ok_or_simps
        bind_st_eval 1(1) 2(1) 3(1) 4(1) 5(1) 6(1) prod.case)
  with 4(2) f6 show ?thesis by blast
qed

text \<open>Where the three places are different, all three are filled.\<close>

lemma initialize_runs:
  assumes law: "aead_law P" and nf: "no_faults w" and rt: "random_total w"
    and outside: "\<not> path_starts_with (du @ [Normal un]) (sp_root sp)"
    and du: "dir_at w du lu" and root: "dir_at w (sp_root sp) lr"
    and di: "dir_at w di li" and contacts: "dir_at w (sp_contacts sp) lc"
    and pub: "sp_identity_public sp = di @ [Normal pn]"
    and enc: "sp_identity_encrypted sp = di @ [Normal en]"
    and free: "fs_get (w_fs w) (lu @ [un]) = None" "fs_get (w_fs w) (li @ [pn]) = None"
      "fs_get (w_fs w) (li @ [en]) = None"
    and distinct: "lu @ [un] \<noteq> li @ [pn]" "lu @ [un] \<noteq> li @ [en]" "pn \<noteq> en"
  shows "\<exists>p w'. initialize P sp (du @ [Normal un]) w = (Ok p, w')"
proof -
  from initialize_to_writes [OF assms(1-13)] obtain key s c w6 where
    f6: "fills {} w w6" and run: "initialize P sp (du @ [Normal un]) w =
      initialize_writes sp (du @ [Normal un]) key (secrets_profile P s) c w6" by blast
  note k6 = fills_keeps [OF f6]
  have "no_faults w6" "dir_at w6 du lu" "fs_get (w_fs w6) (lu @ [un]) = None"
    using k6 nf du free(1) by auto
  from write_entry_runs [OF this] obtain w7 where
    7: "write_new_private (du @ [Normal un]) (encode_unlock_key key) w6 = (Ok (), w7)"
    "fills {lu @ [un]} w6 w7" by blast
  from fills_trans [OF f6 7(2)] have f7: "fills {lu @ [un]} w w7" by simp
  note k7 = fills_keeps [OF f7]
  have "no_faults w7" "dir_at w7 di li" "fs_get (w_fs w7) (li @ [pn]) = None"
    using k7 nf di free(2) distinct(1) by auto
  from write_entry_runs [OF this] obtain w8 where 8: "write_new_private (di @ [Normal pn]) (profile_encode (secrets_profile P s)) w7
      = (Ok (), w8)" "fills {li @ [pn]} w7 w8" by blast
  from fills_trans [OF f7 8(2)] have f8: "fills {li @ [pn], lu @ [un]} w w8" by simp
  note k8 = fills_keeps [OF f8]
  have "no_faults w8" "dir_at w8 di li" "fs_get (w_fs w8) (li @ [en]) = None"
    using k8 nf di free(3) distinct(2,3) by auto
  from write_entry_runs [OF this] obtain w9 where
    9: "write_new_private (di @ [Normal en]) c w8 = (Ok (), w9)" by blast
  show ?thesis
    by (simp only: run pub enc bind_st_Inr 7(1) 8(1)) (simp add: bind_st_def attempt_def 9)
qed

text \<open>
  Where the unlock key's place is that of the public identity, spelled differently, the key is
  written there first; the public identity is then refused, and the key stays.
\<close>

lemma initialize_collides:
  assumes law: "aead_law P" and nf: "no_faults w" and rt: "random_total w"
    and outside: "\<not> path_starts_with (du @ [Normal pn]) (sp_root sp)"
    and du: "dir_at w du li" and root: "dir_at w (sp_root sp) lr"
    and di: "dir_at w di li" and contacts: "dir_at w (sp_contacts sp) lc"
    and pub: "sp_identity_public sp = di @ [Normal pn]"
    and enc: "sp_identity_encrypted sp = di @ [Normal en]"
    and free: "fs_get (w_fs w) (li @ [pn]) = None" "fs_get (w_fs w) (li @ [en]) = None"
  shows "\<exists>e w' key. initialize P sp (du @ [Normal pn]) w = (Err e, w') \<and> extends w w' \<and> length key = 32 \<and>
    file_at w' (di @ [Normal pn]) = Some (encode_unlock_key key)"
proof -
  from initialize_to_writes [OF assms(1-10) free(1,1,2)] obtain key s c w6 where
    key: "length key = 32" and f6: "fills {} w w6" and run: "initialize P sp (du @ [Normal pn]) w =
      initialize_writes sp (du @ [Normal pn]) key (secrets_profile P s) c w6" by blast
  note k6 = fills_keeps [OF f6]
  have "no_faults w6" "dir_at w6 du li" "fs_get (w_fs w6) (li @ [pn]) = None"
    using k6 nf du free(1) by auto
  from write_entry_runs [OF this] obtain w7 where
    7: "write_new_private (du @ [Normal pn]) (encode_unlock_key key) w6 = (Ok (), w7)"
    "fills {li @ [pn]} w6 w7" by blast
  from fills_trans [OF f6 7(2)] have f7: "fills {li @ [pn]} w w7" by simp
  have d7: "dir_at w7 du li" "dir_at w7 di li" using fills_keeps(3) [OF f7] du di by blast+
  have f: "file_at w7 (di @ [Normal pn]) = Some (encode_unlock_key key)"
    using write_new_private_file_at(1) [OF 7(1)] by (simp add: file_at_entry [OF d7(1)] file_at_entry [OF d7(2)])
  obtain r w8 where 8: "write_new_private (di @ [Normal pn]) (profile_encode (secrets_profile P s)) w7 = (r, w8)"
    by fastforce
  have x8: "extends w7 w8" using 8 by (rule keepsD [OF keeps_write_new_private])
  have "r \<noteq> Ok ()" using write_new_private_file_at(2) [of "di @ [Normal pn]" _ w7 _ w8] 8 f by auto
  then obtain e where r: "r = Err e" by (cases r) auto
  have "initialize P sp (du @ [Normal pn]) w = (Err e, w8)"
    by (simp only: run pub bind_st_Inr 7(1)) (simp add: bind_st_def 8 r)
  moreover have "extends w w8" using f7 x8 extending.frame_trans by (auto simp: fills_def)
  moreover have "file_at w8 (di @ [Normal pn]) = Some (encode_unlock_key key)"
    using x8 f by (rule file_at_extends)
  ultimately show ?thesis using key by blast
qed

end
