(* ===== verification/Contact_Store.thy ===== *)
theory Contact_Store
  imports Store_Runs
begin

text \<open>
  The contacts as an abstract data type: a map from names to profiles in which a name, once
  it has a profile, is confirmed or refused but never changed. The operations of
  \<open>src/src/storage.rs\<close> on the directory of contacts implement it, with \<open>pinned\<close> as the
  abstraction, and the verdict on the sender of a letter is a statement about that map.
\<close>

section \<open>The specification\<close>

type_synonym pin_map = "bytes \<Rightarrow> public_profile option"

definition pin_spec :: "pin_map \<Rightarrow> bytes \<Rightarrow> public_profile \<Rightarrow> public_profile result \<times> pin_map" where
  "pin_spec m a p =
     (case m a of
        None \<Rightarrow> (Ok p, m(a \<mapsto> p))
      | Some q \<Rightarrow> (if q = p then Ok p else Err IdentityMismatch, m))"

definition find_spec :: "pin_map \<Rightarrow> bytes \<Rightarrow> contact result" where
  "find_spec m a =
     (case m a of
        None \<Rightarrow> Err (NotFound ''contact is not pinned'')
      | Some p \<Rightarrow> Ok \<lparr>ct_alias = a, ct_profile = p\<rparr>)"

text \<open>
  The specification itself: a pin is found, is never replaced, and pinning touches no other
  name.
\<close>

lemma pin_spec_le: "pin_spec m a p = (r, m') \<Longrightarrow> m \<subseteq>\<^sub>m m'"
  by (auto simp: pin_spec_def map_le_def split: option.splits)

lemma pin_spec_find: "pin_spec m a p = (Ok q, m') \<Longrightarrow> q = p \<and> find_spec m' a = Ok \<lparr>ct_alias = a, ct_profile = p\<rparr>"
  by (auto simp: pin_spec_def find_spec_def split: option.splits if_splits)

text \<open>A name is clean when it is free or holds a pin; a file of another kind is neither.\<close>

definition clean_name :: "primitives \<Rightarrow> state_paths \<Rightarrow> world \<Rightarrow> bytes \<Rightarrow> bool" where
  "clean_name P sp w a \<longleftrightarrow>
     lookup_node (w_fs w) False (w_cwd w) (contact_path sp a) = Inl NotFoundKind \<or>
     pinned P sp w a \<noteq> None"

section \<open>Pins by location\<close>

lemma pinned_entry_file:
  assumes "dir_at w (sp_contacts sp) l" and "validate_alias a"
  shows "pinned P sp w a =
    (case fs_get (w_fs w) (l @ [contact_file a]) of
       Some (FileNode m c) \<Rightarrow> (case profile_parse P c of Inl _ \<Rightarrow> None | Inr p \<Rightarrow> Some p)
     | _ \<Rightarrow> None)"
  using assms(2)
  by (simp add: pinned_def contact_path_child file_at_entry [OF assms(1)] split: option.split node.split)

lemma pinned_fills:
  assumes fill: "fills L w w'" and dir: "dir_at w (sp_contacts sp) l"
    and here: "l @ [contact_file a] \<in> L \<Longrightarrow> fs_get (w_fs w) (l @ [contact_file a]) \<noteq> None"
  shows "pinned P sp w' a = pinned P sp w a"
proof (cases "validate_alias a")
  case valid: True
  have dir': "dir_at w' (sp_contacts sp) l" using fills_keeps(3) [OF fill dir] .
  show ?thesis
  proof (cases "fs_get (w_fs w) (l @ [contact_file a])")
    case None
    with here have "l @ [contact_file a] \<notin> L" by blast
    with fills_keeps(4) [OF fill] None have "fs_get (w_fs w') (l @ [contact_file a]) = None" by blast
    with None show ?thesis by (simp add: pinned_entry_file [OF dir valid] pinned_entry_file [OF dir' valid])
  next
    case (Some n)
    with fill obtain n' where "fs_get (w_fs w') (l @ [contact_file a]) = Some n'" "same_node n n'"
      by (auto simp: fills_def extends_def dest: fs_extends_get)
    with Some show ?thesis
      by (cases n) (auto simp: pinned_entry_file [OF dir valid] pinned_entry_file [OF dir' valid])
  qed
qed (simp add: pinned_def)

text \<open>Trusting a profile fills at most the place of the name.\<close>

lemma trust_profile_fills:
  assumes nf: "no_faults w" and dir: "dir_at w (sp_contacts sp) l" and valid: "validate_alias a"
    and src: "file_at w src = Some (profile_encode p)" "profile_ok P p"
    and run: "trust_profile P sp src a w = (r, w')"
  shows "fills {l @ [contact_file a]} w w'"
proof -
  let ?check = "bind_st (read_regular_limited (contact_path sp a) 512) (\<lambda>pb.
      bind_st (lift_result (profile_parse P pb)) (\<lambda>q. if q = p then ret p else throw IdentityMismatch))"
  let ?pin = "bind_st (write_new_private (contact_path sp a) (profile_encode p)) (\<lambda>_. ret p)"
  from trust_profile_start [OF nf valid dir_at_real [OF dir] src] obtain v where
    x: "extends w v" and k: "\<forall>k. fs_get (w_fs v) k = None \<longleftrightarrow> fs_get (w_fs w) k = None"
    and rest: "bind_st (path_exists (contact_path sp a)) (\<lambda>e. if e then ?check else ?pin) v = (r, w')"
    using run by auto
  have f0: "fills {} w v" using x k by (simp add: fills_def)
  have nfv: "no_faults (tick v)" and dirv: "dir_at (tick v) (sp_contacts sp) l"
    using fills_keeps [OF f0] nf dir by auto
  have t: "fills {} v (tick v)" by (simp add: fills_def extends_def same_process_def)
  have "fills {l @ [contact_file a]} (tick v) w'"
  proof (cases "\<exists>l n. lookup_node (w_fs v) True (w_cwd v) (contact_path sp a) = Inr (l, n)")
    case True
    with rest nfv have "?check (tick v) = (r, w')" by (simp add: path_exists_runs)
    moreover have "keeps looks ?check" by (intro looking.keeps_rules) auto
    ultimately show ?thesis by (auto intro: looks_fills keepsD)
  next
    case False
    with nfv have "path_exists (contact_path sp a) v = (Ok False, tick v)"
      by (simp add: path_exists_runs)
    with rest have "?pin (tick v) = (r, w')" by (simp only: bind_st_Inr if_False)
    then obtain r2 where w2: "write_new_private (contact_path sp a) (profile_encode p) (tick v) = (r2, w')"
      by (auto simp: bind_st_def split: prod.splits sum.splits)
    have "extends (tick v) w'" using w2 by (rule keepsD [OF keeps_write_new_private])
    moreover have "resolve (w_fs (tick v)) False (w_cwd (tick v)) (contact_path sp a)
        = Inr (l @ [contact_file a])"
      using lookup_entry(1) [OF dirv] valid by (simp add: contact_path_child)
    ultimately show ?thesis
      using write_new_private_outcome [OF w2] by (auto simp: fills_def)
  qed
  from fills_trans [OF fills_trans [OF f0 t] this] show ?thesis by simp
qed

section \<open>The refinement\<close>

lemma trust_profile_refines:
  assumes nf: "no_faults w" and dir: "dir_at w (sp_contacts sp) l" and valid: "validate_alias a"
    and src: "file_at w src = Some (profile_encode p)" "profile_ok P p"
    and clean: "clean_name P sp w a"
    and run: "trust_profile P sp src a w = (r, w')"
  shows "pin_spec (pinned P sp w) a p = (r, pinned P sp w')"
proof -
  note fill = trust_profile_fills [OF nf dir valid src run]
  note real = dir_at_real [OF dir]
  have other: "pinned P sp w' b = pinned P sp w b" if "b \<noteq> a" for b
    by (rule pinned_fills [OF fill dir]) (use that in simp)
  show ?thesis
  proof (cases "pinned P sp w a")
    case (Some q)
    from trust_profile_pinned [OF nf real src Some] run
    have r: "r = (if q = p then Ok p else Err IdentityMismatch)" by simp
    from Some have "extends w w'" using fill by (simp add: fills_def)
    with Some have "pinned P sp w' a = Some q"
      by (auto intro: pins.view_kept extends_spares)
    with other Some have "pinned P sp w' b = pinned P sp w b" for b by (cases "b = a") auto
    then have "pinned P sp w' = pinned P sp w" by (rule ext)
    with r Some show ?thesis by (simp add: pin_spec_def)
  next
    case None
    with clean have "lookup_node (w_fs w) False (w_cwd w) (contact_path sp a) = Inl NotFoundKind"
      by (simp add: clean_name_def)
    from trust_profile_free [OF nf valid real src this] run dir have r: "r = Ok p"
      by (simp add: dir_at_def)
    with trust_profile_Ok(1) run have "pinned P sp w' a = Some p" by blast
    with other have "pinned P sp w' = (pinned P sp w)(a \<mapsto> p)" by (auto simp: fun_eq_iff)
    with r None show ?thesis by (simp add: pin_spec_def)
  qed
qed

lemma contact_of_refines:
  assumes nf: "no_faults w" and valid: "validate_alias a" and clean: "clean_name P sp w a"
  shows "fst (contact_of P sp a w) = find_spec (pinned P sp w) a"
proof (cases "pinned P sp w a")
  case (Some p)
  from contact_of_runs [OF nf this] show ?thesis by (auto simp: find_spec_def Some)
next
  case None
  with clean have free: "lookup_node (w_fs w) False (w_cwd w) (contact_path sp a) = Inl NotFoundKind"
    by (simp add: clean_name_def)
  obtain r v where rv: "read_regular_limited (contact_path sp a) 512 w = (r, v)" by fastforce
  with read_regular_limited_spec [OF nf, of 512 "contact_path sp a"] free
  have "r = Err (Io NotFoundKind)" by (simp add: read_spec_def usize_max_def)
  with rv valid None show ?thesis
    by (simp add: contact_of_def find_spec_def bind_st_def map_err_st_def map_not_found_def)
qed

section \<open>Verdicts on senders\<close>

text \<open>A verdict taken over a list of all pins, said of the map itself.\<close>

definition same_key :: "public_profile \<Rightarrow> public_profile \<Rightarrow> bool" where
  "same_key p q \<longleftrightarrow> pp_identity_public p = pp_identity_public q \<or>
     pp_agreement_public p = pp_agreement_public q"

definition verdict_spec :: "pin_map \<Rightarrow> public_profile \<Rightarrow> sender_trust \<Rightarrow> bool" where
  "verdict_spec m s trust \<longleftrightarrow>
     (case trust of
        Pinned n \<Rightarrow> m n = Some s
      | Mismatch n \<Rightarrow> s \<notin> ran m \<and> (\<exists>q. m n = Some q \<and> same_key q s)
      | Unknown \<Rightarrow> \<forall>q \<in> ran m. \<not> same_key q s)"

lemma classify_sender_verdict:
  assumes cs: "set cs = {c. m (ct_alias c) = Some (ct_profile c)}"
  shows "verdict_spec m s (classify_sender cs s)"
proof -
  have pin: "ct_profile ` set cs = ran m"
  proof
    show "ran m \<subseteq> ct_profile ` set cs"
    proof
      fix q assume "q \<in> ran m"
      then obtain n where "m n = Some q" by (auto simp: ran_def)
      then have "\<lparr>ct_alias = n, ct_profile = q\<rparr> \<in> set cs" by (simp add: cs)
      then show "q \<in> ct_profile ` set cs" by (rule rev_image_eqI) simp
    qed
  qed (auto simp: cs ran_def)
  have share: "shares_key s c = same_key (ct_profile c) s" for c
    by (simp add: shares_key_def same_key_def)
  show ?thesis
  proof (cases "classify_sender cs s")
    case (Pinned n)
    then obtain c where "c \<in> set cs" "ct_profile c = s" "ct_alias c = n"
      unfolding classify_sender_Pinned_iff by (blast dest: first_withD)
    then show ?thesis by (auto simp: verdict_spec_def Pinned cs)
  next
    case (Mismatch n)
    then obtain c where c: "c \<in> set cs" "shares_key s c" "ct_alias c = n" and "\<forall>c\<in>set cs. ct_profile c \<noteq> s"
      unfolding classify_sender_Mismatch_iff by (blast dest: first_withD)
    then have "s \<notin> ran m" unfolding pin [symmetric] by blast
    moreover have "m n = Some (ct_profile c)" using c cs by simp
    ultimately show ?thesis using c(2) by (simp add: verdict_spec_def Mismatch share)
  next
    case Unknown
    then have "\<forall>c\<in>set cs. \<not> same_key (ct_profile c) s"
      by (simp only: classify_sender_Unknown_iff share)
    then have "\<forall>q\<in>ran m. \<not> same_key q s" unfolding pin [symmetric] by blast
    then show ?thesis by (simp add: verdict_spec_def Unknown)
  qed
qed

end
