(* ===== verification/Delivery.thy ===== *)
theory Delivery
  imports Cli Store_Runs
begin

text \<open>
  The commands \<open>seal\<close> and \<open>open\<close> of \<open>src/src/cli.rs\<close> on machines without faults: from a
  state directory with an identity and pinned contacts, sealing writes the letter that was on
  the standard input, and opening writes it to the standard output and removes the blob.
  At the end the converse: what a successful \<open>open\<close> has printed was in the blob.
\<close>

section \<open>Machines that hold an identity\<close>

definition holds_identity ::
  "primitives \<Rightarrow> state_paths \<Rightarrow> world \<Rightarrow> path \<Rightarrow> identity_secrets \<Rightarrow> bool" where
  "holds_identity P sp w u s \<longleftrightarrow> secrets_ok s \<and> profile_ok P (secrets_profile P s) \<and>
     (\<exists>key encrypted. length key = 32 \<and> length encrypted \<le> 512 \<and>
        file_at w u = Some (encode_unlock_key key) \<and>
        file_at w (sp_identity_encrypted sp) = Some encrypted \<and>
        decrypt_private_identity P encrypted key = Ok s \<and>
        file_at w (sp_identity_public sp) = Some (profile_encode (secrets_profile P s)))"

lemma holds_identity_looks: "looks w w' \<Longrightarrow> holds_identity P sp w' u s = holds_identity P sp w u s"
  by (simp add: holds_identity_def file_at_looks)

lemma holds_identity_load:
  assumes "no_faults w" and "holds_identity P sp w u s"
  shows "\<exists>v. load_identity P sp u w = (Ok (s, secrets_profile P s), v) \<and> looks w v"
  using assms unfolding holds_identity_def by (elim conjE exE) (rule load_identity_runs)

definition contacts_in_order :: "primitives \<Rightarrow> state_paths \<Rightarrow> world \<Rightarrow> bool" where
  "contacts_in_order P sp w \<longleftrightarrow> fs_ok (w_fs w) \<and> real_dir w (sp_contacts sp) \<and>
     (\<forall>p \<in> set (contact_entries sp w). \<exists>a q. p = contact_path sp a \<and> pinned P sp w a = Some q)"

lemma contacts_in_order_looks:
  assumes "looks w w'"
  shows "contacts_in_order P sp w' = contacts_in_order P sp w" and "pinned P sp w' = pinned P sp w"
proof -
  from assms have same: "w_fs w' = w_fs w" "w_cwd w' = w_cwd w"
    by (simp_all add: looks_def same_process_def)
  show pin: "pinned P sp w' = pinned P sp w"
    using file_at_looks [OF assms] by (simp add: pinned_def fun_eq_iff)
  show "contacts_in_order P sp w' = contacts_in_order P sp w"
    by (simp add: contacts_in_order_def contact_entries_def real_dir_def same pin)
qed

lemma contacts_in_order_all:
  assumes "no_faults w" and "contacts_in_order P sp w"
  shows "\<exists>cs v. all_contacts P sp w = (Ok cs, v) \<and> looks w v \<and>
    set cs = {c. pinned P sp w (ct_alias c) = Some (ct_profile c)}"
proof -
  from assms(2) have c: "fs_ok (w_fs w)" "real_dir w (sp_contacts sp)"
    "\<forall>p \<in> set (contact_entries sp w). \<exists>a q. p = contact_path sp a \<and> pinned P sp w a = Some q"
    by (simp_all add: contacts_in_order_def)
  from all_contacts_runs [OF assms(1) c(2,3)] obtain cs v where
    run: "all_contacts P sp w = (Ok cs, v)" by blast
  with all_contacts_exact(1) [OF assms(1) c(1,2) run] keepsD [OF keeps_reads(4) run]
  show ?thesis by blast
qed

section \<open>What is not used up\<close>

text \<open>The standard input and the random source, as long as neither is read.\<close>

definition same_inputs :: "world \<Rightarrow> world \<Rightarrow> bool" where
  "same_inputs w w' \<longleftrightarrow> w_stdin w' = w_stdin w \<and> w_random w' = w_random w \<and>
     w_random_calls w' = w_random_calls w"

interpretation inputs: frame same_inputs
  by unfold_locales (auto simp: same_inputs_def)

lemma same_inputs_query [simp]: "keeps same_inputs (os_query f)"
  by (auto intro!: keepsI simp: os_query_def os_call_def same_inputs_def
      split: option.splits sum.splits)

lemma same_inputs_reads [simp]:
  "keeps same_inputs (read_regular_limited p n)" "keeps same_inputs (export_profile P sp)"
  "keeps same_inputs (load_identity P sp u)" "keeps same_inputs (contact_of P sp a)"
proof -
  show r: "keeps same_inputs (read_regular_limited q k)" for q k
    unfolding read_regular_limited_def ensure_regular_file_def symlink_metadata_def file_open_def
      file_metadata_len_def file_read_to_end_def Let_def
    by (intro inputs.keeps_rules) auto
  show e: "keeps same_inputs (export_profile P sp)"
    unfolding export_profile_def by (intro inputs.keeps_rules r) auto
  show "keeps same_inputs (load_identity P sp u)"
    unfolding load_identity_def by (intro inputs.keeps_rules r e) auto
  show "keeps same_inputs (contact_of P sp a)"
    unfolding contact_of_def by (intro inputs.keeps_rules r) auto
qed

lemma same_inputs_available:
  "same_inputs w w' \<Longrightarrow> random_available n w' = random_available n w"
  "same_inputs w w' \<Longrightarrow> drawn i n w' = drawn i n w"
  by (simp_all add: same_inputs_def random_available_def drawn_def)

section \<open>Sealing\<close>

text \<open>
  The options name a contact, an unlock key and an output file; the contact is pinned, the
  identity is there, the output's place is free.
\<close>

lemma command_seal_runs:
  assumes laws: "hash_law P" "hkdf_law P" "dh_law P" "sign_law P" "aead_law P"
    and opts: "parse_options args False True = Ok \<lparr>op_positionals = [a], op_unlock = Some u,
        op_alias = None, op_output = Some (d @ [Normal n])\<rparr>"
    and utf8: "utf8_valid a" and nf: "no_faults w"
    and id: "holds_identity P sp w u ss" and pin: "pinned P sp w a = Some rp"
    and body: "length (w_stdin w) \<le> MAX_BODY_LEN"
    and rand: "random_available 4 w"
    and dh: "\<not> list_all (\<lambda>b. b = 0) (pr_x25519_dh P (drawn 0 32 w) (pp_agreement_public rp))"
    and out: "dir_at w d l" "fs_get (w_fs w) (l @ [n]) = None"
  shows "\<exists>w' blob v. command_seal P sp args w = (Ok (), w') \<and>
    file_at w' (d @ [Normal n]) = Some blob \<and> extends w w' \<and>
    seal P ss (secrets_profile P ss) rp (w_stdin w) v = (Ok blob, after_random 4 v)"
proof -
  have ss: "secrets_ok ss" using id by (simp add: holds_identity_def)
  have rp: "profile_ok P rp" using pin by (simp add: pinned_iff)
  from contact_of_runs [OF nf pin] obtain w1 where
    1: "contact_of P sp a w = (Ok \<lparr>ct_alias = a, ct_profile = rp\<rparr>, w1)" by blast
  have l1: "looks w w1" and i1: "same_inputs w w1"
    by (rule keepsD [OF keeps_reads(3) 1], rule keepsD [OF same_inputs_reads(4) 1])
  have nf1: "no_faults w1" using nf l1 by (simp add: no_faults_looks)
  from holds_identity_load [OF nf1] id obtain w2 where
    2: "load_identity P sp u w1 = (Ok (ss, secrets_profile P ss), w2)" "looks w1 w2"
    using holds_identity_looks [OF l1] by blast
  have l2: "looks w w2" using l1 2(2) by (rule looking.frame_trans)
  have i2: "same_inputs w w2"
    using i1 keepsD [OF same_inputs_reads(3) 2(1)] by (rule inputs.frame_trans)
  let ?hint = "ascii (''Enter the letter body, then send EOF ''
       @ ''(Ctrl-D on Unix, Ctrl-Z then Enter on Windows):'')"
  define w3 where "w3 = snd (when_st (w_stdin_tty w2) (eprintln ?hint) w2)"
  have 3: "when_st (w_stdin_tty w2) (eprintln ?hint) w2 = (Ok (), w3)"
    by (simp add: w3_def when_st_def eprintln_def eprint_def)
  have "keeps looks (when_st (w_stdin_tty w2) (eprintln ?hint))" by (intro looking.keeps_when) simp
  from keepsD [OF this 3] have l3: "looks w w3" by (rule looking.frame_trans [OF l2])
  have i3: "same_inputs w w3"
    using i2 by (simp add: w3_def when_st_def same_inputs_def eprintln_def eprint_def)
  define w4 where "w4 = tick (w3\<lparr>w_stdin := []\<rparr>)"
  have nf3: "no_faults w3" using nf l3 by (simp add: no_faults_looks)
  have 4: "stdin_read_to_end (MAX_BODY_LEN + 1) w3 = (Ok (w_stdin w), w4)"
    using body nf3 i3 by (simp add: stdin_read_to_end_def os_step_def w4_def same_inputs_def)
  have l4: "looks w w4"
    using l3 keepsD [OF keeps_streams(1) 4] by (rule looking.frame_trans)
  have i4: "random_available 4 w4" "drawn 0 32 w4 = drawn 0 32 w"
    using rand i3 by (simp_all add: w4_def same_inputs_def random_available_def drawn_def)
  from seal_runs [OF laws ss rp body i4(1), unfolded i4(2), OF dh] obtain blob where
    5: "seal P ss (secrets_profile P ss) rp (w_stdin w) w4 = (Ok blob, after_random 4 w4)" by blast
  have l5: "looks w (after_random 4 w4)"
    using l4 keepsD [OF keeps_seal 5] by (rule looking.frame_trans)
  have "no_faults (after_random 4 w4)" "dir_at (after_random 4 w4) d l"
    "fs_get (w_fs (after_random 4 w4)) (l @ [n]) = None"
    using nf out no_faults_looks [OF l5] dir_at_extends [OF looks_extends [OF l5]] l5
    by (simp_all add: looks_def)
  from write_entry_runs [OF this] obtain w6 where
    6: "write_new_private (d @ [Normal n]) blob (after_random 4 w4) = (Ok (), w6)" by blast
  obtain w7 where 7: "bind_st (show_path (d @ [Normal n])) (\<lambda>shown.
      bind_st (eprintln (ascii ''Sealed '' @ show_nat (length blob) @ ascii '' bytes to ''
        @ shown @ ascii ''.'')) (\<lambda>_. ret ())) w6 = (Ok (), w7)" "looks w6 w7"
    by (simp add: show_path_def eprintln_def eprint_def looks_def same_process_def)
  have run: "command_seal P sp args w = (Ok (), w7)"
    using 3 1 2(1) 4 5 6 7(1) utf8 body
    by (simp add: command_seal_def opts to_str_def resolve_unlock_path_def del: MAX_BODY_LEN_def)
  have "extends w w6"
    using keepsD [OF keeps_write_new_private 6] looks_extends [OF l5] extending.frame_trans by blast
  then have "extends w w7" using looks_extends [OF 7(2)] by (rule extending.frame_trans)
  moreover have "file_at w7 (d @ [Normal n]) = Some blob"
    using write_new_private_file_at(1) [OF 6] file_at_looks [OF 7(2)] by simp
  ultimately show ?thesis using run 5 by blast
qed

section \<open>Opening\<close>

lemma finish_open_runs:
  assumes nf: "no_faults w" and at: "file_at w p = Some blob"
  shows "\<exists>w'. finish_open keep p letter w = (Ok (), w') \<and>
    w_stdout w' = w_stdout w @ ol_body letter \<and>
    (\<exists>before after. w_stderr w' = before @ sender_line (ol_sender_trust letter) @ after) \<and>
    (if keep then w_fs w' = w_fs w
     else \<exists>l. resolve (w_fs w) False (w_cwd w) p = Inr l \<and> w_fs w' = fs_del l (w_fs w))"
proof -
  define before where "before = w_stderr w @ ascii ''INTEGRITY: VALID'' @ [newline] @
    ascii ''SIGNATURE: VALID'' @ [newline] @ ascii ''RECIPIENT: VALID'' @ [newline]"
  define after where "after = [newline] @ ascii ''SENDER FINGERPRINT: '' @
    formatted_fingerprint (ol_sender letter) @ [newline]"
  define w1 where "w1 = w\<lparr>w_stderr := before @ sender_line (ol_sender_trust letter) @ after\<rparr>"
  let ?last = "if \<not> keep then bind_st (consume_blob p) (\<lambda>_. bind_st (eprintln
      (ascii ''CIPHERTEXT: CONSUMED (logical deletion only)'')) (\<lambda>_. ret ())) else ret ()"
  define w2 where "w2 = tick ((tick w1)\<lparr>w_stdout := w_stdout w @ ol_body letter\<rparr>)"
  have nf1: "no_faults w1" using nf by (simp add: w1_def no_faults_def)
  have head: "finish_open keep p letter w =
      bind_st (stdout_write_all (ol_body letter)) (\<lambda>_. bind_st stdout_flush (\<lambda>_. ?last)) w1"
    by (simp add: finish_open_def w1_def before_def after_def)
  have out: "stdout_write_all (ol_body letter) w1 =
      (Ok (), (tick w1)\<lparr>w_stdout := w_stdout w @ ol_body letter\<rparr>)"
    using nf1 by (simp add: stdout_write_all_Ok_iff) (simp add: w1_def)
  have flush: "stdout_flush ((tick w1)\<lparr>w_stdout := w_stdout w @ ol_body letter\<rparr>) = (Ok (), w2)"
    using nf1 by (simp add: stdout_flush_def os_step_def w2_def)
  have start: "finish_open keep p letter w = ?last w2"
    by (simp only: head out flush bind_st_Inr)
  have w2: "w_fs w2 = w_fs w" "w_cwd w2 = w_cwd w" "no_faults w2"
    "w_stdout w2 = w_stdout w @ ol_body letter"
    "w_stderr w2 = before @ sender_line (ol_sender_trust letter) @ after"
    using nf1 by (simp_all add: w2_def w1_def)
  show ?thesis
  proof (cases keep)
    case True
    with start w2 show ?thesis by auto
  next
    case False
    from at obtain l m where l: "lookup_node (w_fs w2) False (w_cwd w2) p = Inr (l, FileNode m blob)"
      by (auto simp: file_at_iff w2)
    define w3 where "w3 = (tick (tick w2))\<lparr>w_fs := fs_del l (w_fs w)\<rparr>"
    have "consume_blob p w2 = (Ok (), w3)"
      using l w2 by (simp add: consume_blob_def ensure_regular_file_def no_faults_call
          remove_file_Ok_iff [THEN iffD2] w3_def)
    with False start have "finish_open keep p letter w = (Ok (), w3\<lparr>w_stderr := w_stderr w3 @
        ascii ''CIPHERTEXT: CONSUMED (logical deletion only)'' @ [newline]\<rparr>)" by simp
    moreover have "resolve (w_fs w) False (w_cwd w) p = Inr l"
      using l w2 by (simp add: lookup_node_Inr_iff)
    moreover have "w_stderr w3 = before @ sender_line (ol_sender_trust letter) @ after"
      "w_stdout w3 = w_stdout w @ ol_body letter" "w_fs w3 = fs_del l (w_fs w)"
      by (simp_all add: w3_def w2)
    ultimately show ?thesis using False by fastforce
  qed
qed

lemma command_open_runs:
  assumes opts: "parse_open_options args = Ok (\<lparr>op_positionals = [b], op_unlock = Some u,
        op_alias = None, op_output = None\<rparr>, keep)"
    and nf: "no_faults w" and id: "holds_identity P sp w u rs" and cs: "contacts_in_order P sp w"
    and blob: "file_at w (path_of_bytes b) = Some blob"
    and opens: "\<And>contacts. open_letter P rs (secrets_profile P rs) contacts blob = Ok (letter contacts)"
  shows "\<exists>w' contacts. command_open P sp args w = (Ok (), w') \<and>
    set contacts = {c. pinned P sp w (ct_alias c) = Some (ct_profile c)} \<and>
    w_stdout w' = w_stdout w @ ol_body (letter contacts) \<and>
    (\<exists>before after. w_stderr w' = before @ sender_line (ol_sender_trust (letter contacts)) @ after) \<and>
    (if keep then w_fs w' = w_fs w
     else \<exists>l. resolve (w_fs w) False (w_cwd w) (path_of_bytes b) = Inr l \<and>
       w_fs w' = fs_del l (w_fs w))"
proof -
  from holds_identity_load [OF nf id] obtain w1 where
    1: "load_identity P sp u w = (Ok (rs, secrets_profile P rs), w1)" "looks w w1" by blast
  have nf1: "no_faults w1" using nf 1(2) by (simp add: no_faults_looks)
  from contacts_in_order_all [OF nf1] cs obtain contacts w2 where
    2: "all_contacts P sp w1 = (Ok contacts, w2)" "looks w1 w2"
    and set: "set contacts = {c. pinned P sp w (ct_alias c) = Some (ct_profile c)}"
    using contacts_in_order_looks [OF 1(2)] by metis
  have l2: "looks w w2" using 1(2) 2(2) by (rule looking.frame_trans)
  have nf2: "no_faults w2" using nf l2 by (simp add: no_faults_looks)
  have "length blob \<le> MAX_BLOB_LEN"
    using opens [of "[]"] by (rule open_letter_OkE) (simp add: valid_blob_len_def)
  then obtain w3 where 3: "read_blob (path_of_bytes b) w2 = (Ok blob, w3)" "looks w2 w3"
    using read_regular_limited_runs [OF nf2, of MAX_BLOB_LEN "path_of_bytes b" blob] blob
      file_at_looks [OF l2] by (auto simp: read_blob_def usize_max_def protocol_consts)
  have l3: "looks w w3" using l2 3(2) by (rule looking.frame_trans)
  have "no_faults w3" "file_at w3 (path_of_bytes b) = Some blob"
    using nf blob l3 by (simp_all add: no_faults_looks file_at_looks)
  from finish_open_runs [OF this, of keep "letter contacts"] obtain w' where
    4: "finish_open keep (path_of_bytes b) (letter contacts) w3 = (Ok (), w')"
    and res: "w_stdout w' = w_stdout w3 @ ol_body (letter contacts)"
      "\<exists>before after. w_stderr w' = before @ sender_line (ol_sender_trust (letter contacts)) @ after"
      "if keep then w_fs w' = w_fs w3 else \<exists>l. resolve (w_fs w3) False (w_cwd w3) (path_of_bytes b) = Inr l \<and>
         w_fs w' = fs_del l (w_fs w3)"
    by blast
  have "map_err_st (\<lambda>_. CannotOpen) (read_blob (path_of_bytes b)) w2 = (Ok blob, w3)"
    using 3(1) by simp
  with 1(1) 2(1) 4 opens have "command_open P sp args w = (Ok (), w')"
    by (simp add: command_open_def opts resolve_unlock_path_def Let_def)
  moreover have same: "w_fs w3 = w_fs w" "w_cwd w3 = w_cwd w" "w_stdout w3 = w_stdout w"
    using l3 by (simp_all add: looks_def same_process_def)
  note res [unfolded same]
  ultimately show ?thesis
    using set by (intro exI [of _ w'] exI [of _ contacts] conjI)
qed

text \<open>
  Conversely, whatever a run of \<open>open\<close> has printed was in the blob, for the identity that is
  there, and the verdict is taken over the pins that are there.
\<close>

lemma command_open_shows:
  assumes laws: "hash_law P" "aead_exact P" and nf: "no_faults w" and tree: "fs_ok (w_fs w)"
    and dir: "real_dir w (sp_contacts sp)" and run: "command_open P sp args w = (Ok (), w')"
  shows "\<exists>opts keep u w1 key encrypted rs blob contacts letter before after.
    parse_open_options args = Ok (opts, keep) \<and>
    resolve_unlock_path (op_unlock opts) False w = (Ok u, w1) \<and>
    file_at w u = Some (encode_unlock_key key) \<and> length key = 32 \<and>
    file_at w (sp_identity_encrypted sp) = Some encrypted \<and>
    decrypt_private_identity P encrypted key = Ok rs \<and>
    file_at w (sp_identity_public sp) = Some (profile_encode (secrets_profile P rs)) \<and>
    file_at w (path_of_bytes (op_positionals opts ! 0)) = Some blob \<and>
    letter_in P rs letter blob \<and>
    set contacts = {c. pinned P sp w (ct_alias c) = Some (ct_profile c)} \<and>
    ol_sender_trust letter = classify_sender contacts (ol_sender letter) \<and>
    w_stdout w' = w_stdout w @ ol_body letter \<and> w_stderr w' = before @ verdict_text letter @ after"
proof -
  have "\<not> (looks w w' \<and> Ok () \<noteq> Ok ())" by simp
  from command_open_split [OF run this] obtain opts keep u secrets profile contacts blob letter w1 w2 w3 w4
    where opts: "parse_open_options args = Ok (opts, keep)"
    and 1: "looks w w1" "load_identity P sp u w1 = (Ok (secrets, profile), w2)"
    and path: "resolve_unlock_path (op_unlock opts) False w = (Ok u, w1)"
    and 2: "looks w w2" "all_contacts P sp w2 = (Ok contacts, w3)"
    and blob: "file_at w (path_of_bytes (op_positionals opts ! 0)) = Some blob"
    and opens: "open_letter P secrets profile contacts blob = Ok letter"
    and 4: "looks w w4" "finish_open keep (path_of_bytes (op_positionals opts ! 0)) letter w4 = (Ok (), w')"
    by blast
  from load_identity_Ok [OF 1(2)] obtain key encrypted where
    id: "file_at w u = Some (encode_unlock_key key)" "length key = 32"
      "file_at w (sp_identity_encrypted sp) = Some encrypted"
      "decrypt_private_identity P encrypted key = Ok secrets"
      "file_at w (sp_identity_public sp) = Some (profile_encode (secrets_profile P secrets))"
    by (auto simp: file_at_looks [OF 1(1)])
  have "no_faults w2" "fs_ok (w_fs w2)" "real_dir w2 (sp_contacts sp)"
    using nf tree dir 2(1) by (simp_all add: no_faults_looks) (simp_all add: looks_def same_process_def real_dir_def)
  from all_contacts_exact(1) [OF this 2(2)] have
    set: "set contacts = {c. pinned P sp w (ct_alias c) = Some (ct_profile c)}"
    by (simp add: contacts_in_order_looks(2) [OF 2(1)])
  have "ol_sender_trust letter = classify_sender contacts (ol_sender letter)"
    using opens by (auto elim!: open_letter_OkE simp: letter_of_def)
  moreover from finish_open_shows [OF 4(2)] 4(1) obtain before after where
    "w_stdout w' = w_stdout w @ ol_body letter" "w_stderr w' = before @ verdict_text letter @ after"
    by (auto simp: looks_def)
  moreover note opts path blob id set opens_letter_in [OF laws opens]
  ultimately show ?thesis by blast
qed

end
