(* ===== verification/Wizards.thy ===== *)
theory Wizards
  imports Program Delivery
begin

text \<open>
  What the choices of the menu (the wizards of \<open>src/src/cli.rs\<close>) do from beginning to end: the
  tree is changed only by the last step, and only after what comes before has succeeded.
\<close>

section \<open>Opening a letter\<close>

text \<open>
  A step that keeps the tree, in a computation that does not: it has succeeded, and what is
  left starts from the same tree.
\<close>

definition same_tree :: "world \<Rightarrow> world \<Rightarrow> bool" where
  "same_tree w w' \<longleftrightarrow> w_fs w' = w_fs w \<and> w_cwd w' = w_cwd w"

interpretation same_tree: frame same_tree
  by unfold_locales (simp_all add: same_tree_def)

lemma looks_same_tree: "keeps looks m \<Longrightarrow> keeps same_tree m"
  by (auto simp: keeps_def same_tree_def looks_def same_process_def)

lemma stdout_same_tree: "keeps same_tree (stdout_write_all b)"
  by (auto intro!: keepsI simp: same_tree_def stdout_write_all_def split: option.splits)

lemma changed_treeE:
  assumes "bind_st m f v = (r, w')" and "same_tree w v" and "w_fs w' \<noteq> w_fs w"
    and "keeps same_tree m"
  obtains x u where "m v = (Ok x, u)" "same_tree w u" "f x u = (r, w')"
proof -
  obtain q u where m: "m v = (q, u)" by fastforce
  with assms(4) have "same_tree v u" by (rule keepsD)
  with assms(2) have wu: "same_tree w u" by (rule same_tree.frame_trans)
  show thesis
  proof (cases q)
    case (Inl e)
    with assms(1,3) m wu show thesis by (simp add: same_tree_def)
  next
    case (Inr x)
    with assms(1) m wu that show thesis by simp
  qed
qed

lemma consume_last_outcome:
  assumes "bind_st (consume_blob p) (\<lambda>_. bind_st (eprintln m) (\<lambda>_. ret ())) v = (r, w')"
    and "same_tree w v" and "w_fs w' \<noteq> w_fs w"
  shows "r = Ok () \<and> w_stdout w' = w_stdout v \<and>
    (\<exists>l m c. lookup_node (w_fs w) False (w_cwd w) p = Inr (l, FileNode m c) \<and>
       w_fs w' = fs_del l (w_fs w))"
proof -
  obtain q u where q: "consume_blob p v = (q, u)" by fastforce
  show ?thesis
  proof (cases q)
    case (Inl e)
    with q assms consume_blob_Err [of p v e u] show ?thesis by (simp add: same_tree_def)
  next
    case (Inr x)
    have "w_stdout u = w_stdout v"
      using q Inr by (auto simp: consume_blob_def ensure_regular_file_def bind_st_Ok_iff call_Ok_iffs
        split: if_splits)
    with q Inr assms consume_blob_Ok [of p v x u] show ?thesis
      by (auto simp: same_tree_def eprintln_def eprint_def)
  qed
qed

text \<open>The letter as the wizard prints it: ended by a line end, if it does not end with one.\<close>

definition printed_letter :: "bytes \<Rightarrow> bytes" where
  "printed_letter body = body @ (if suffix [newline] body then [] else [newline])"

lemma finish_wizard_open_outcome:
  assumes run: "finish_wizard_open consume p letter st w = (r, w')" and changed: "w_fs w' \<noteq> w_fs w"
  shows "r = Ok () \<and> consume \<and> w_stdout w' = w_stdout w @ printed_letter (ol_body letter) \<and>
    (\<exists>l m c. lookup_node (w_fs w) False (w_cwd w) p = Inr (l, FileNode m c) \<and>
       w_fs w' = fs_del l (w_fs w))"
proof -
  let ?b = "ol_body letter"
  let ?tail = "if consume then bind_st (consume_blob p) (\<lambda>_. bind_st (eprintln (success st @
        ascii '' Ciphertext consumed (logical deletion only)'')) (\<lambda>_. ret ()))
      else bind_st (show_path p) (\<lambda>shown. bind_st (eprintln (warning st @
        ascii '' Ciphertext retained: '' @ shown)) (\<lambda>_. ret ()))"
  let ?last = "when_st (\<not> suffix [newline] ?b) (stdout_write_all [newline])"
  have whole: "bind_st (bind_st (eprintln ([newline] @ bold st (ascii ''Verification''))) (\<lambda>_.
      bind_st (print_letter_status letter st) (\<lambda>_. bind_st (eprintln ([newline] @ bold st
        (ascii ''Letter''))) (\<lambda>_. eprintln (rule_line st))))) (\<lambda>_.
      bind_st (stdout_write_all ?b) (\<lambda>_. bind_st ?last (\<lambda>_. bind_st stdout_flush (\<lambda>_.
      bind_st (eprintln (rule_line st)) (\<lambda>_. ?tail))))) w = (r, w')" (is "bind_st ?head _ _ = _")
    using run by (simp only: finish_wizard_open_def bind_st_assoc)
  have head: "keeps looks ?head" by (intro looking.keeps_rules) auto
  from changed_treeE [OF whole same_tree.frame_refl changed looks_same_tree [OF head]] obtain x w1 where
    1: "?head w = (Ok x, w1)" "same_tree w w1"
    and r1: "bind_st (stdout_write_all ?b) (\<lambda>_. bind_st ?last (\<lambda>_. bind_st stdout_flush (\<lambda>_.
      bind_st (eprintln (rule_line st)) (\<lambda>_. ?tail)))) w1 = (r, w')" by blast
  from changed_treeE [OF r1 1(2) changed stdout_same_tree] obtain w2 where
    2: "stdout_write_all ?b w1 = (Ok (), w2)" "same_tree w w2"
    and r2: "bind_st ?last (\<lambda>_. bind_st stdout_flush (\<lambda>_.
      bind_st (eprintln (rule_line st)) (\<lambda>_. ?tail))) w2 = (r, w')" by auto
  have "keeps same_tree ?last" by (intro same_tree.keeps_when stdout_same_tree)
  from changed_treeE [OF r2 2(2) changed this] obtain w3 where
    3: "?last w2 = (Ok (), w3)" "same_tree w w3"
    and r3: "bind_st stdout_flush (\<lambda>_. bind_st (eprintln (rule_line st)) (\<lambda>_. ?tail)) w3 = (r, w')"
    by auto
  from changed_treeE [OF r3 3(2) changed looks_same_tree [OF keeps_streams(2)]] obtain w4 where
    4: "stdout_flush w3 = (Ok (), w4)" "same_tree w w4"
    and r4: "bind_st (eprintln (rule_line st)) (\<lambda>_. ?tail) w4 = (r, w')" by auto
  from changed_treeE [OF r4 4(2) changed looks_same_tree [OF keeps_eprint(2)]] obtain w5 where
    5: "eprintln (rule_line st) w4 = (Ok (), w5)" "same_tree w w5"
    and r5: "?tail w5 = (r, w')" by auto
  have "w_stdout w1 = w_stdout w" "w_stdout w4 = w_stdout w3" "w_stdout w5 = w_stdout w4"
    using keepsD [OF head 1(1)] keepsD [OF keeps_streams(2) 4(1)] 5(1)
    by (auto simp: looks_def eprintln_def eprint_def)
  moreover have "w_stdout w3 = w_stdout w1 @ printed_letter ?b"
    using 2(1) 3(1) by (auto simp: printed_letter_def stdout_write_all_Ok_iff when_st_def split: if_splits)
  ultimately have out: "w_stdout w5 = w_stdout w @ printed_letter ?b" by simp
  have consume
  proof (rule ccontr)
    assume "\<not> consume"
    with r5 5(2) changed show False
      by (auto simp: same_tree_def eprintln_def eprint_def show_path_def get_state_def)
  qed
  with r5 consume_last_outcome [OF _ 5(2) changed] out show ?thesis by auto
qed

lemma wizard_open_split:
  assumes run: "wizard_open P sp st w = (r, w')" and changed: "w_fs w' \<noteq> w_fs w"
  shows "\<exists>p u consume secrets profile contacts blob letter w0 w1 w2 w3 w4 w5 w6.
    eprintln ([newline] @ bold st (ascii ''Open a letter'')) w = (Ok (), w0) \<and>
    prompt_path (ascii ''Encrypted letter file'') None w0 = (Ok p, w1) \<and>
    prompt_unlock_path False w1 = (Ok u, w2) \<and>
    prompt_yes_no (ascii ''Delete the ciphertext after a successful open?'') True w2 = (Ok consume, w3) \<and>
    load_identity P sp u w3 = (Ok (secrets, profile), w4) \<and>
    all_contacts P sp w4 = (Ok contacts, w5) \<and> read_blob p w5 = (Ok blob, w6) \<and>
    open_letter P secrets profile contacts blob = Ok letter \<and>
    looks w w6 \<and> finish_wizard_open consume p letter st w6 = (r, w')"
proof -
  have stop: "\<not> (looks w w' \<and> (\<forall>x. r \<noteq> Ok x))" using changed by (simp add: looks_def)
  note E = bind_looksE [OF _ _ _ stop]
  define rest where "rest u consume p = bind_st (load_identity P sp u) (\<lambda>(secrets, profile).
      bind_st (all_contacts P sp) (\<lambda>contacts.
      bind_st (map_err_st (\<lambda>_. CannotOpen) (read_blob p)) (\<lambda>blob.
      bind_st (lift_result (open_letter P secrets profile contacts blob)) (\<lambda>letter.
      finish_wizard_open consume p letter st))))" for u consume p
  from E [OF run [unfolded wizard_open_def, folded rest_def] looking.frame_refl keeps_eprint(2)] obtain w0 where
    0: "eprintln ([newline] @ bold st (ascii ''Open a letter'')) w = (Ok (), w0)" "looks w w0" and
    r0: "bind_st (prompt_path (ascii ''Encrypted letter file'') None) (\<lambda>p.
      bind_st (prompt_unlock_path False) (\<lambda>u.
      bind_st (prompt_yes_no (ascii ''Delete the ciphertext after a successful open?'') True) (\<lambda>consume.
      rest u consume p))) w0 = (r, w')" by auto
  from E [OF r0 0(2) keeps_path_prompts(3)] obtain p w1 where
    1: "prompt_path (ascii ''Encrypted letter file'') None w0 = (Ok p, w1)" "looks w w1" and
    r1: "bind_st (prompt_unlock_path False) (\<lambda>u.
      bind_st (prompt_yes_no (ascii ''Delete the ciphertext after a successful open?'') True) (\<lambda>consume.
      rest u consume p)) w1 = (r, w')" by blast
  from E [OF r1 1(2) keeps_path_prompts(4)] obtain u w2 where
    2: "prompt_unlock_path False w1 = (Ok u, w2)" "looks w w2" and
    r2: "bind_st (prompt_yes_no (ascii ''Delete the ciphertext after a successful open?'') True)
      (\<lambda>consume. rest u consume p) w2 = (r, w')" by blast
  from E [OF r2 2(2) keeps_path_prompts(5)] obtain consume w3 where
    3: "prompt_yes_no (ascii ''Delete the ciphertext after a successful open?'') True w2 = (Ok consume, w3)"
      "looks w w3"
    and r3: "rest u consume p w3 = (r, w')" by blast
  from E [OF r3 [unfolded rest_def] 3(2) keeps_reads(2)] obtain secrets profile w4 where
    4: "load_identity P sp u w3 = (Ok (secrets, profile), w4)" "looks w w4" and
    r4: "bind_st (all_contacts P sp) (\<lambda>contacts.
      bind_st (map_err_st (\<lambda>_. CannotOpen) (read_blob p)) (\<lambda>blob.
      bind_st (lift_result (open_letter P secrets profile contacts blob)) (\<lambda>letter.
      finish_wizard_open consume p letter st))) w4 = (r, w')" by auto
  from E [OF r4 4(2) keeps_reads(4)] obtain contacts w5 where
    5: "all_contacts P sp w4 = (Ok contacts, w5)" "looks w w5" and
    r5: "bind_st (map_err_st (\<lambda>_. CannotOpen) (read_blob p)) (\<lambda>blob.
      bind_st (lift_result (open_letter P secrets profile contacts blob)) (\<lambda>letter.
      finish_wizard_open consume p letter st)) w5 = (r, w')" by blast
  from E [OF r5 5(2) looking.keeps_map_err [OF keeps_read_blob]] obtain blob w6 where
    6: "read_blob p w5 = (Ok blob, w6)" "looks w w6" and
    r6: "bind_st (lift_result (open_letter P secrets profile contacts blob)) (\<lambda>letter.
      finish_wizard_open consume p letter st) w6 = (r, w')" by auto
  from E [OF r6 6(2) looking.keeps_lift] obtain letter where
    7: "open_letter P secrets profile contacts blob = Ok letter"
    and r7: "finish_wizard_open consume p letter st w6 = (r, w')" by auto
  with 0(1) 1(1) 2(1) 3(1) 4(1) 5(1) 6 show ?thesis by blast
qed

text \<open>The end of the whole wizard, when it has changed the tree.\<close>

lemma wizard_open_changed:
  assumes run: "wizard_open P sp st w = (r, w')" and changed: "w_fs w' \<noteq> w_fs w"
  shows "\<exists>p u secrets profile contacts blob letter w0 w1 w2 w3 w4 w5 w6 l. r = Ok () \<and>
    eprintln ([newline] @ bold st (ascii ''Open a letter'')) w = (Ok (), w0) \<and>
    prompt_path (ascii ''Encrypted letter file'') None w0 = (Ok p, w1) \<and>
    prompt_unlock_path False w1 = (Ok u, w2) \<and>
    prompt_yes_no (ascii ''Delete the ciphertext after a successful open?'') True w2 = (Ok True, w3) \<and>
    load_identity P sp u w3 = (Ok (secrets, profile), w4) \<and>
    all_contacts P sp w4 = (Ok contacts, w5) \<and> read_blob p w5 = (Ok blob, w6) \<and>
    file_at w p = Some blob \<and> open_letter P secrets profile contacts blob = Ok letter \<and>
    w_stdout w' = w_stdout w @ printed_letter (ol_body letter) \<and>
    resolve (w_fs w) False (w_cwd w) p = Inr l \<and> w_fs w' = fs_del l (w_fs w)"
proof -
  from wizard_open_split [OF run changed] obtain p u consume secrets profile contacts blob letter
      w0 w1 w2 w3 w4 w5 w6
    where chain: "eprintln ([newline] @ bold st (ascii ''Open a letter'')) w = (Ok (), w0)"
      "prompt_path (ascii ''Encrypted letter file'') None w0 = (Ok p, w1)"
      "prompt_unlock_path False w1 = (Ok u, w2)"
      "prompt_yes_no (ascii ''Delete the ciphertext after a successful open?'') True w2 = (Ok consume, w3)"
      "load_identity P sp u w3 = (Ok (secrets, profile), w4)"
      "all_contacts P sp w4 = (Ok contacts, w5)" "read_blob p w5 = (Ok blob, w6)"
      "open_letter P secrets profile contacts blob = Ok letter"
    and l: "looks w w6" and f: "finish_wizard_open consume p letter st w6 = (r, w')" by blast
  from l have same: "w_fs w6 = w_fs w" "w_cwd w6 = w_cwd w" "w_stdout w6 = w_stdout w"
    by (simp_all add: looks_def same_process_def)
  from finish_wizard_open_outcome [OF f, unfolded same, OF changed] obtain k m c where
    out: "r = Ok ()" consume "w_stdout w' = w_stdout w @ printed_letter (ol_body letter)"
      "lookup_node (w_fs w) False (w_cwd w) p = Inr (k, FileNode m c)" "w_fs w' = fs_del k (w_fs w)"
    by blast
  have "file_at w p = Some blob"
    using read_blob_Ok(2) [OF chain(7)] file_at_looks [OF l] by simp
  moreover have "resolve (w_fs w) False (w_cwd w) p = Inr k" using out(4) by (simp add: lookup_node_Inr_iff)
  moreover have "consume = True" using out(2) by simp
  note chain [unfolded this]
  ultimately show ?thesis using out(1,3,5) by blast
qed

section \<open>Sealing a letter\<close>

text \<open>What is waiting in the terminal stays there while only files are read.\<close>

definition same_typing :: "world \<Rightarrow> world \<Rightarrow> bool" where
  "same_typing w w' \<longleftrightarrow> w_tty w' = w_tty w \<and> w_stty w' = w_stty w"

interpretation typing: frame same_typing
  by unfold_locales (auto simp: same_typing_def)

lemma same_typing_query [simp]: "keeps same_typing (os_query f)"
  by (auto intro!: keepsI simp: os_query_def os_call_def same_typing_def split: option.splits sum.splits)

lemma same_typing_contacts: "keeps same_typing (all_contacts P sp)"
proof -
  have r: "keeps same_typing (read_regular_limited q k)" for q k
    unfolding read_regular_limited_def ensure_regular_file_def symlink_metadata_def file_open_def
      file_metadata_len_def file_read_to_end_def Let_def
    by (intro typing.keeps_rules) auto
  have l: "keeps same_typing (load_contacts P ps)" for ps
  proof (induction ps)
    case (Cons p ps)
    then show ?case unfolding load_contacts.simps by (intro typing.keeps_rules r) auto
  qed (simp only: load_contacts.simps typing.keeps_ret)
  show ?thesis
    unfolding all_contacts_def path_exists_def metadata_def ensure_real_directory_def
      symlink_metadata_def read_dir_def
    by (intro typing.keeps_rules l) auto
qed

lemma types_mode [simp]: "types (w\<lparr>w_tty_mode := m\<rparr>) bs = types w bs"
  by (simp add: types_def no_faults_def)

lemma raw_picker_runs:
  assumes "types w (concat (map key_bytes ks) @ key_bytes KeySelect @ rest)"
    and "set ks \<subseteq> {KeyUp, KeyDown, KeyIgnore}"
  shows "\<exists>w'. raw_picker title choices st w =
    (Ok (Some (fold (press (length choices)) ks 0)), w') \<and> types w' rest"
proof -
  let ?v = "w\<lparr>w_stderr := (w_stderr w @ ([newline] @ bold st title) @ [newline]) @
    dim st picker_help @ [newline]\<rparr>"
  have "types ?v (concat (map key_bytes ks) @ key_bytes KeySelect @ rest)" using assms(1) by simp
  from draw_picker_runs [OF this] obtain u where
    u: "draw_picker choices 0 st False ?v = (Ok (), u)"
      "types u (concat (map key_bytes ks) @ key_bytes KeySelect @ rest)" by blast
  with picker_loop_keys [OF u(2) assms(2)] show ?thesis
    by (simp add: raw_picker_def bind_eprint)
qed

lemma choose_from_list_runs:
  assumes law: "stty_law (w_stty w)"
    and raw: "fst (w_stty w raw_arguments (w_tty_mode w)) = (True, out)" "utf8_valid out"
    and keys: "types w (concat (map key_bytes ks) @ key_bytes KeySelect @ rest)"
      "set ks \<subseteq> {KeyUp, KeyDown, KeyIgnore}" and ne: "choices \<noteq> []"
  shows "\<exists>w'. choose_from_list title choices st w =
    (Ok (Some (fold (press (length choices)) ks 0)), w') \<and> types w' rest"
proof -
  from law obtain saved where g: "w_stty w [ascii ''-g''] (w_tty_mode w) = ((True, saved), w_tty_mode w)"
    "utf8_valid saved" unfolding stty_law_def by blast
  from keys(1) have nf: "no_faults w" by (simp add: types_def)
  have 1: "tty_open w = (Ok (), tick w)"
    using keys(1) by (simp add: tty_open_def os_step_def types_def)
  let ?w2 = "tick ((tick w)\<lparr>w_tty_mode := w_tty_mode w\<rparr>)"
  have 2: "stty [ascii ''-g''] (tick w) = (Ok (trim saved), ?w2)"
    using g nf by (simp add: stty_runs)
  let ?w3 = "tick (?w2\<lparr>w_tty_mode := snd (w_stty w raw_arguments (w_tty_mode w))\<rparr>)"
  have 3: "stty raw_arguments ?w2 = (Ok (trim out), ?w3)"
    using raw nf by (simp add: stty_runs no_faults_def)
  have enter: "raw_enter w = (Ok (trim saved), ?w3)"
    by (simp add: raw_enter_def bind_st_def attempt_def 1 2 3)
  have "types ?w3 (concat (map key_bytes ks) @ key_bytes KeySelect @ rest)" using keys(1) by simp
  from raw_picker_runs [OF this keys(2), of title choices st] obtain w4 where
    4: "raw_picker title choices st ?w3 = (Ok (Some (fold (press (length choices)) ks 0)), w4)"
      "types w4 rest" by blast
  have "restore_stty (trim saved) w4 =
      (Ok (), tick (w4\<lparr>w_tty_mode := snd (w_stty w4 [trim saved] (w_tty_mode w4))\<rparr>))"
    using 4(2) by (simp add: restore_stty_def run_stty_runs bind_st_def attempt_def types_def)
  with 4 enter ne show ?thesis by (simp add: choose_from_list_def bind_st_def attempt_def)
qed

lemma prompt_runs:
  assumes "types w (l @ newline # rest)" and "newline \<notin> set l" and "utf8_valid (l @ [newline])"
    and "trim (l @ [newline]) \<noteq> []"
  shows "\<exists>w'. prompt label dflt w = (Ok (trim (l @ [newline])), w') \<and> types w' rest"
proof -
  define v where "v = w\<lparr>w_stderr := w_stderr w @ (case dflt of
    Some d \<Rightarrow> label @ ascii '' ['' @ d @ ascii '']: '' | None \<Rightarrow> label @ ascii '': '')\<rparr>"
  have e: "(case dflt of Some d \<Rightarrow> eprint (label @ ascii '' ['' @ d @ ascii '']: '')
    | None \<Rightarrow> eprint (label @ ascii '': '')) w = (Ok (), v)"
    by (simp add: v_def eprint_def split: option.split)
  have v: "types v (l @ newline # rest)" using assms(1) by (simp add: v_def)
  then have 1: "stderr_flush v = (Ok (), tick v)"
    by (simp add: stderr_flush_def os_step_def types_def)
  have 2: "tty_open (tick v) = (Ok (), tick (tick v))"
    using v by (simp add: tty_open_def os_step_def types_def)
  have v2: "types (tick (tick v)) (l @ newline # rest)" using v by simp
  from tty_read_line_runs [OF v2 assms(2,3)] have
    3: "tty_read_line (tick (tick v)) = (Ok (l @ [newline]), tick ((tick (tick v))\<lparr>w_tty := Some rest\<rparr>))" .
  have "prompt label dflt w = (Ok (trim (l @ [newline])), tick ((tick (tick v))\<lparr>w_tty := Some rest\<rparr>))"
    unfolding prompt_def bind_st_def e using assms(4)
    by (simp add: read_terminal_line_def terminal_input_def bind_st_def 1 2 3 Let_def)
  then show ?thesis using v by (auto simp: types_def)
qed

text \<open>A typed path that is taken as it is: not \<open>~\<close>, and not under it.\<close>

definition plain_path :: "bytes \<Rightarrow> bytes \<Rightarrow> bool" where
  "plain_path l p \<longleftrightarrow> newline \<notin> set l \<and> utf8_valid (l @ [newline]) \<and> trim (l @ [newline]) = p \<and>
     p \<noteq> [] \<and> p \<noteq> ascii ''~'' \<and> strip_prefix (ascii ''~/'') p = None"

lemma prompt_path_runs:
  assumes "types w (l @ newline # rest)" and "plain_path l p"
  shows "\<exists>w'. prompt_path label dflt w = (Ok (path_of_bytes p), w') \<and> types w' rest"
  using prompt_runs [OF assms(1), of label dflt] assms(2)
  by (auto simp: plain_path_def prompt_path_def bind_st_def expand_home_path_def)

text \<open>The answer to a question is the line that is typed.\<close>

lemma prompt_yes_no_runs:
  assumes "types w (l @ newline # rest)" and "newline \<notin> set l" and "utf8_valid (l @ [newline])"
    and "to_ascii_lowercase (trim (l @ [newline])) = ascii (if yes then ''y'' else ''n'')"
  shows "\<exists>w'. prompt_yes_no label d w = (Ok yes, w') \<and> types w' rest"
proof -
  have n: "trim (l @ [newline]) \<noteq> []"
    using assms(4) by (cases yes) (auto simp: to_ascii_lowercase_def ascii_def)
  have "length (trim (l @ [newline])) = 1"
    using arg_cong [OF assms(4), of length] by (cases yes) (simp_all add: to_ascii_lowercase_def ascii_def)
  then have "trim (l @ [newline]) \<noteq> ascii ''Y/n''" "trim (l @ [newline]) \<noteq> ascii ''y/N''"
    by (auto simp: ascii_def)
  with prompt_runs [OF assms(1-3) n, of label "Some (ascii (if d then ''Y/n'' else ''y/N''))"] assms(4)
  show ?thesis by (cases d; cases yes) (auto simp: prompt_yes_no_def bind_st_def ascii_inject Let_def)
qed

text \<open>No random key gives a zero secret with the profile.\<close>

definition usable_profile :: "primitives \<Rightarrow> world \<Rightarrow> public_profile \<Rightarrow> bool" where
  "usable_profile P w p \<longleftrightarrow>
     (\<forall>v. w_random v = w_random w \<longrightarrow>
        \<not> list_all (\<lambda>b. b = 0) (pr_x25519_dh P (drawn 0 32 v) (pp_agreement_public p)))"

text \<open>A terminal that can be put into raw mode, and what a user types into the wizard.\<close>

definition raw_terminal :: "world \<Rightarrow> bool" where
  "raw_terminal w \<longleftrightarrow> stty_law (w_stty w) \<and>
     (\<forall>m. fst (fst (w_stty w raw_arguments m)) \<and> utf8_valid (snd (fst (w_stty w raw_arguments m))))"

definition letter_lines :: "bytes list \<Rightarrow> bytes" where
  "letter_lines ls = concat (map (\<lambda>l. l @ [newline]) ls)"

definition seal_typing :: "picker_key list \<Rightarrow> bytes \<Rightarrow> bytes list \<Rightarrow> bytes" where
  "seal_typing ks path ls = concat (map key_bytes ks) @ key_bytes KeySelect @ path @ newline #
     letter_lines ls @ ascii ''.'' @ [newline]"

lemma looks_kept:
  assumes "looks w v"
  shows "no_faults v = no_faults w" and "dir_at v d l = dir_at w d l" and "w_env v = w_env w"
    and "random_total v = random_total w" and "w_fs v = w_fs w" and "w_random v = w_random w"
  using assms no_faults_looks [OF assms]
  by (simp_all add: looks_def same_process_def dir_at_def random_total_def)

lemma seal_and_write_runs:
  assumes laws: "hash_law P" "hkdf_law P" "dh_law P" "sign_law P" "aead_law P"
    and ss: "secrets_ok ss" and rp: "profile_ok P rp" "usable_profile P w rp"
    and body: "length body \<le> MAX_BODY_LEN" and nf: "no_faults w" and rand: "random_total w"
    and out: "dir_at w d l" "fs_get (w_fs w) (l @ [n]) = None"
  shows "\<exists>blob w1 w2. seal P ss (secrets_profile P ss) rp body w = (Ok blob, w1) \<and>
    write_new_private (d @ [Normal n]) blob w1 = (Ok (), w2)"
proof -
  have "\<not> list_all (\<lambda>b. b = 0) (pr_x25519_dh P (drawn 0 32 w) (pp_agreement_public rp))"
    using rp(2) by (simp add: usable_profile_def)
  from seal_runs [OF laws ss rp(1) body random_total_available [OF rand] this] obtain blob where
    blob: "seal P ss (secrets_profile P ss) rp body w = (Ok blob, after_random 4 w)" by blast
  have l: "looks w (after_random 4 w)" using blob by (rule keepsD [OF keeps_seal])
  from write_entry_runs [of "after_random 4 w" d l n blob] nf out obtain w2 where
    "write_new_private (d @ [Normal n]) blob (after_random 4 w) = (Ok (), w2)"
    by (auto simp: looks_kept [OF l])
  with blob show ?thesis by blast
qed

lemma wizard_seal_runs:
  assumes laws: "hash_law P" "hkdf_law P" "dh_law P" "sign_law P" "aead_law P"
    and id: "holds_identity P sp w (path_of_bytes ub) ss"
    and env: "w_env w (ascii ''SEALED_UNLOCK_KEY'') = Some ub"
    and cs: "contacts_in_order P sp w" "pinned P sp w a = Some p0"
    and usable: "\<forall>p \<in> ran (pinned P sp w). usable_profile P w p"
    and tty: "raw_terminal w" "types w (seal_typing ks path ls)"
    and keys: "set ks \<subseteq> {KeyUp, KeyDown, KeyIgnore}"
    and path: "plain_path path pb" "path_of_bytes pb = d @ [Normal n]"
    and letter: "ls \<noteq> []" "list_all letter_line ls" "length (letter_lines ls) \<le> MAX_BODY_LEN"
    and rand: "random_total w" and out: "dir_at w d l" "fs_get (w_fs w) (l @ [n]) = None"
  shows "\<exists>cs v w1 w2 w3 w' blob i. looks w v \<and> all_contacts P sp v = (Ok cs, w1) \<and>
    i = fold (press (length cs)) ks 0 \<and> i < length cs \<and> looks w w2 \<and>
    seal P ss (secrets_profile P ss) (ct_profile (cs ! i)) (letter_lines ls) w2 = (Ok blob, w3) \<and>
    wizard_seal P sp st w = (Ok (), w') \<and> file_at w' (d @ [Normal n]) = Some blob"
proof -
  have nf: "no_faults w" using tty(2) by (simp add: types_def)
  obtain v where 0: "eprintln ([newline] @ bold st (ascii ''Seal a letter'')) w = (Ok (), v)"
    and tv: "w_tty v = w_tty w" "w_stty v = w_stty w" by (simp add: eprintln_def eprint_def)
  have v: "looks w v" using 0 by (rule keepsD [OF keeps_eprint(2)])
  have nfv: "no_faults v" using nf looks_kept(1) [OF v] by simp
  have csv: "contacts_in_order P sp v" using cs(1) contacts_in_order_looks(1) [OF v] by simp
  from contacts_in_order_all [OF nfv csv] obtain cs w1 where
    1: "all_contacts P sp v = (Ok cs, w1)" "looks v w1"
    and set: "set cs = {c. pinned P sp w (ct_alias c) = Some (ct_profile c)}"
    by (auto simp: contacts_in_order_looks(2) [OF v])
  have l1: "looks w w1" using v 1(2) by (rule looking.frame_trans)
  have t1: "types w1 (seal_typing ks path ls)"
    using keepsD [OF same_typing_contacts 1(1)] tty(2) looks_kept(1) [OF l1] tv
    by (simp add: types_def same_typing_def)
  have ne: "cs \<noteq> []" using set cs(2)
    by (metis (mono_tags, lifting) contact.select_convs(1,2) empty_iff empty_set mem_Collect_eq)
  let ?opts = "map (\<lambda>c. ct_alias c @ ascii ''  '' @ middle_dot @ ascii ''  ''
    @ short_fingerprint (ct_profile c)) cs"
  define i where "i = fold (press (length cs)) ks 0"
  have "int i < int (length cs)"
    unfolding i_def using fold_press [of 0 "length cs" ks] keys ne by simp
  then have i: "i < length cs" by simp
  have stty: "w_stty w1 = w_stty w"
    using keepsD [OF same_typing_contacts 1(1)] tv by (simp add: same_typing_def)
  define o1 where "o1 = snd (fst (w_stty w raw_arguments (w_tty_mode w1)))"
  have raw: "fst (w_stty w1 raw_arguments (w_tty_mode w1)) = (True, o1)" "utf8_valid o1"
    using tty(1) by (simp_all add: raw_terminal_def stty o1_def prod_eq_iff)
  have law: "stty_law (w_stty w1)" using tty(1) by (simp add: raw_terminal_def stty)
  from choose_from_list_runs [OF law raw t1 [unfolded seal_typing_def] keys, of ?opts "ascii ''Choose recipient''" st] ne
  obtain w4 where 4: "choose_from_list (ascii ''Choose recipient'') ?opts st w1 = (Ok (Some i), w4)"
    and t4: "types w4 (path @ newline # letter_lines ls @ ascii ''.'' @ [newline])"
    by (auto simp: i_def)
  have l4: "looks w w4"
    using l1 keepsD [OF keeps_choose_from_list(2) 4] by (rule looking.frame_trans)
  have 5: "prompt_unlock_path False w4 = (Ok (path_of_bytes ub), w4)"
    using env looks_kept(3) [OF l4] by (simp add: prompt_unlock_path_def env_var_def)
  let ?dflt = "Some (ascii ''letter-for-'' @ ct_alias (cs ! i) @ ascii ''.bin'')"
  from prompt_path_runs [OF t4 path(1), of "ascii ''Save encrypted letter as''" ?dflt] obtain w6 where
    6: "prompt_path (ascii ''Save encrypted letter as'') ?dflt w4 = (Ok (d @ [Normal n]), w6)"
    and t6: "types w6 (letter_lines ls @ ascii ''.'' @ [newline])" by (auto simp: path(2))
  have l6: "looks w w6" using l4 keepsD [OF keeps_path_prompts(3) 6] by (rule looking.frame_trans)
  obtain u6 w7 where 7: "eprintln ([newline] @ ascii
      ''Write the letter. Finish with a single dot on a new line:'') w6 = (Ok (), u6)"
    "eprintln (rule_line st) u6 = (Ok (), w7)"
    and t7: "types w7 (letter_lines ls @ ascii ''.'' @ [newline])"
    using t6 by (simp add: eprintln_def eprint_def)
  have l7: "looks w w7"
    using looking.frame_trans [OF looking.frame_trans [OF l6]] keepsD [OF keeps_eprint(2) 7(1)]
      keepsD [OF keeps_eprint(2) 7(2)] by blast
  have "tty_open w7 = (Ok (), tick w7)"
    using t7 by (simp add: tty_open_def os_step_def types_def)
  with multiline_loop_runs [of "tick w7" ls "[]" "[]"] t7 letter(2,3) obtain w8 where
    8: "read_multiline_letter w7 = (Ok (letter_lines ls), w8)"
    by (auto simp: read_multiline_letter_def terminal_input_def letter_lines_def bind_st_def)
  have l8: "looks w w8" using l7 keepsD [OF keeps_multiline(2) 8] by (rule looking.frame_trans)
  have full: "letter_lines ls \<noteq> []" using letter(1) by (cases ls) (simp_all add: letter_lines_def)
  have nf8: "no_faults w8" using nf looks_kept(1) [OF l8] by simp
  from holds_identity_load [OF nf8] id obtain w9 where
    9: "load_identity P sp (path_of_bytes ub) w8 = (Ok (ss, secrets_profile P ss), w9)" "looks w8 w9"
    using holds_identity_looks [OF l8] by blast
  have l9: "looks w w9" using l8 9(2) by (rule looking.frame_trans)
  note k9 = looks_kept [OF l9]
  have "cs ! i \<in> set cs" using i by simp
  then have pin: "pinned P sp w (ct_alias (cs ! i)) = Some (ct_profile (cs ! i))" using set by blast
  have rp: "profile_ok P (ct_profile (cs ! i))" "usable_profile P w9 (ct_profile (cs ! i))"
    using pin usable ranI [of "pinned P sp w"] k9(6) by (auto simp: pinned_iff usable_profile_def)
  have ss: "secrets_ok ss" using id by (simp add: holds_identity_def)
  obtain blob w10 w11 where
    10: "seal P ss (secrets_profile P ss) (ct_profile (cs ! i)) (letter_lines ls) w9 = (Ok blob, w10)"
    and 11: "write_new_private (d @ [Normal n]) blob w10 = (Ok (), w11)"
    using seal_and_write_runs [OF laws ss rp letter(3), of d l n] nf rand out k9 by auto
  obtain w' where rest: "bind_st (eprintln (success st @ ascii '' Letter sealed for '' @ ct_alias (cs ! i))) (\<lambda>_.
      bind_st (show_path (d @ [Normal n])) (\<lambda>shown.
      bind_st (eprintln (ascii ''File: '' @ shown @ ascii '' ('' @ show_nat (length blob) @ ascii '' bytes)''))
        (\<lambda>_. bind_st (eprintln (ascii ''Send this file through any byte-preserving transport.'')) (\<lambda>_.
      ret ())))) w11 = (Ok (), w')" "looks w11 w'"
    by (simp add: bind_eprint show_path_def looks_def same_process_def tty_left_def)
  have "wizard_seal P sp st w = (Ok (), w')"
    using ne i by (simp only: wizard_seal_def Let_def if_False if_True ok_or_simps bind_st_eval prod.case
      bind_st_Inr 0 1(1) 4 5 6 7 8 full 9(1) 10 11 rest(1))
  moreover have "file_at w' (d @ [Normal n]) = Some blob"
    using write_new_private_file_at(1) [OF 11] file_at_looks [OF rest(2)] by simp
  ultimately show ?thesis using v 1(1) i l9 10 unfolding i_def by blast
qed

end
