(* ===== verification/Samples.thy ===== *)
theory Samples
  imports Contact_Store Wizards
begin

text \<open>
  Concrete people, machines and letters, at which the hypotheses of the properties hold: the
  instance of the primitives of theory Primitives, two identities, a third party, and a
  machine whose state directory holds a pinned contact.
\<close>

definition alice :: identity_secrets where
  "alice = secrets_from_bytes (replicate 32 0x11) (replicate 32 0x22)"

definition bob :: identity_secrets where
  "bob = secrets_from_bytes (replicate 32 0x33) (replicate 32 0x45)"

definition mallory :: identity_secrets where
  "mallory = secrets_from_bytes (replicate 32 0x66) (replicate 32 0x77)"

abbreviation profile_of :: "identity_secrets \<Rightarrow> public_profile" where
  "profile_of s \<equiv> secrets_profile sample_primitives s"

lemma sample_secrets: "secrets_ok alice" "secrets_ok bob" "secrets_ok mallory"
  by (simp_all add: alice_def bob_def mallory_def secrets_ok_def secrets_from_bytes_def)

lemma sample_profiles:
  "profile_ok sample_primitives (profile_of alice)" "profile_ok sample_primitives (profile_of bob)"
  "profile_ok sample_primitives (profile_of mallory)"
  by (auto intro: secrets_profile_ok sample_laws sample_secrets)

lemma bob_not_mallory: "profile_of bob \<noteq> profile_of mallory"
proof -
  have "pp_identity_public (profile_of bob) ! 0 \<noteq> pp_identity_public (profile_of mallory) ! 0"
    by (simp add: secrets_profile_def bob_def mallory_def secrets_from_bytes_def sample_primitives_def)
  then show ?thesis by auto
qed

section \<open>A letter\<close>

lemma sample_random: "random_available n sample_world"
  by (simp add: random_available_def sample_world_def)

lemma sample_dh:
  "\<not> list_all (\<lambda>b. b = 0) (pr_x25519_dh sample_primitives (drawn 0 32 sample_world)
     (pp_agreement_public (profile_of bob)))"
proof -
  let ?d = "pr_x25519_dh sample_primitives (drawn 0 32 sample_world)
     (pp_agreement_public (profile_of bob))"
  have "?d ! 0 = 89" and "0 < length ?d"
    by (simp_all add: sample_primitives_def drawn_def sample_world_def secrets_profile_def bob_def
        secrets_from_bytes_def)
  then show ?thesis by (auto simp: list_all_length intro!: exI [of _ 0])
qed

lemma sample_seal:
  assumes "length body \<le> MAX_BODY_LEN"
  shows "\<exists>blob. seal sample_primitives alice (profile_of alice) (profile_of bob) body sample_world
    = (Ok blob, after_random 4 sample_world)"
  using assms sample_laws sample_aead_law sample_secrets sample_random sample_dh
  by (intro seal_runs secrets_profile_ok) auto

section \<open>A machine\<close>

lemma valid_names:
  "validate_alias (ascii ''bob'')" "validate_alias (ascii ''alice'')" "validate_alias (ascii ''carol'')"
  by (simp_all add: validate_alias_def ascii_def byte_class_defs)

definition home :: state_paths where
  "home = from_root [RootDir, Normal (ascii ''home'')]"

lemma plain_names:
  "path_of_bytes (ascii ''identity'') = [Normal (ascii ''identity'')]"
  "path_of_bytes (ascii ''contacts'') = [Normal (ascii ''contacts'')]"
  "path_of_bytes (ascii ''identity.pub'') = [Normal (ascii ''identity.pub'')]"
  "path_of_bytes (ascii ''identity.key.enc'') = [Normal (ascii ''identity.key.enc'')]"
  by (rule path_of_plain_name; simp add: ascii_def)+

lemma home_simps:
  "sp_root home = [RootDir, Normal (ascii ''home'')]"
  "sp_contacts home = [RootDir, Normal (ascii ''home''), Normal (ascii ''contacts'')]"
  "sp_identity_public home =
     [RootDir, Normal (ascii ''home''), Normal (ascii ''identity''), Normal (ascii ''identity.pub'')]"
  "sp_identity_encrypted home =
     [RootDir, Normal (ascii ''home''), Normal (ascii ''identity''), Normal (ascii ''identity.key.enc'')]"
  by (simp_all add: home_def from_root_def plain_names)

text \<open>What the identity file of a person contains, under one fixed unlock key.\<close>

definition unlock_key :: bytes where "unlock_key = replicate 32 0x5A"

definition identity_file :: "identity_secrets \<Rightarrow> bytes" where
  "identity_file s =
     (case fst (encrypt_private_identity sample_primitives s unlock_key sample_world) of
        Inl _ \<Rightarrow> [] | Inr c \<Rightarrow> c)"

lemma identity_file:
  assumes "secrets_ok s"
  shows "decrypt_private_identity sample_primitives (identity_file s) unlock_key = Ok s"
    and "length (identity_file s) = PRIVATE_FILE_MAX_LEN"
proof -
  have k: "length unlock_key = 32" by (simp add: unlock_key_def)
  from encrypt_private_identity_runs [OF sample_aead_law assms k sample_random [of 1]]
  obtain c where c: "encrypt_private_identity sample_primitives s unlock_key sample_world
      = (Ok c, after_random 1 sample_world)" by auto
  from encrypt_private_identity_Ok [OF sample_aead_law assms k c]
  show "decrypt_private_identity sample_primitives (identity_file s) unlock_key = Ok s"
    "length (identity_file s) = PRIVATE_FILE_MAX_LEN" by (simp_all add: identity_file_def c)
qed

text \<open>A machine with an identity, its unlock key in the root directory, one pinned contact and
  further files.\<close>

definition machine :: "identity_secrets \<Rightarrow> string \<Rightarrow> identity_secrets \<Rightarrow> fs \<Rightarrow> bytes \<Rightarrow> world" where
  "machine me name peer files input = sample_world\<lparr>w_stdin := input, w_fs :=
     [([], DirNode 0x1ED),
      ([ascii ''home''], DirNode dir_mode),
      ([ascii ''home'', ascii ''identity''], DirNode dir_mode),
      ([ascii ''home'', ascii ''identity'', ascii ''identity.pub''],
         FileNode file_mode (profile_encode (profile_of me))),
      ([ascii ''home'', ascii ''identity'', ascii ''identity.key.enc''],
         FileNode file_mode (identity_file me)),
      ([ascii ''home'', ascii ''contacts''], DirNode dir_mode),
      ([ascii ''home'', ascii ''contacts'', contact_file (ascii name)],
         FileNode file_mode (profile_encode (profile_of peer))),
      ([ascii ''key''], FileNode file_mode (encode_unlock_key unlock_key))] @ files\<rparr>"

abbreviation at_root :: "string \<Rightarrow> path" where
  "at_root name \<equiv> [RootDir, Normal (ascii name)]"

lemma machine_simps [simp]:
  "w_cwd (machine me name peer files input) = []" "no_faults (machine me name peer files input)"
  "random_available n (machine me name peer files input)"
  "drawn i n (machine me name peer files input) = drawn i n sample_world"
  "w_stdin (machine me name peer files input) = input"
  "w_random (machine me name peer files input) = w_random sample_world"
  "w_stdout (machine me name peer files input) = []"
  by (simp_all add: machine_def no_faults_def sample_world_def random_available_def drawn_def)

lemmas lookup_eval = lookup_node_def resolve_def max_symlinks_def machine_def sample_world_def
  fs_get_def ascii_inject numeral_eq_Suc home_simps

lemma machine_lookups:
  "lookup_node (w_fs (machine me name peer files input)) False [] (sp_contacts home)
     = Inr ([ascii ''home'', ascii ''contacts''], DirNode dir_mode)"
  "lookup_node (w_fs (machine me name peer files input)) False [] (at_root ''home'')
     = Inr ([ascii ''home''], DirNode dir_mode)"
  "lookup_node (w_fs (machine me name peer files input)) False [] [RootDir] = Inr ([], DirNode 0x1ED)"
  "lookup_node (w_fs (machine me name peer files input)) False [] (sp_identity_public home) =
     Inr ([ascii ''home'', ascii ''identity'', ascii ''identity.pub''],
       FileNode file_mode (profile_encode (profile_of me)))"
  "lookup_node (w_fs (machine me name peer files input)) False [] (sp_identity_encrypted home) =
     Inr ([ascii ''home'', ascii ''identity'', ascii ''identity.key.enc''],
       FileNode file_mode (identity_file me))"
  "lookup_node (w_fs (machine me name peer files input)) False [] (at_root ''key'')
     = Inr ([ascii ''key''], FileNode file_mode (encode_unlock_key unlock_key))"
  "lookup_node (w_fs (machine me name peer files input)) False []
      [RootDir, Normal (ascii ''home''), Normal (ascii ''contacts''), Normal (contact_file (ascii name))]
     = Inr ([ascii ''home'', ascii ''contacts'', contact_file (ascii name)],
         FileNode file_mode (profile_encode (profile_of peer)))"
  by (simp_all add: lookup_eval)

lemma machine_dirs:
  "dir_at (machine me name peer files input) (sp_contacts home) [ascii ''home'', ascii ''contacts'']"
  "dir_at (machine me name peer files input) [RootDir] []"
proof -
  have "sp_contacts home \<noteq> []" by (simp add: home_simps)
  then show
    "dir_at (machine me name peer files input) (sp_contacts home) [ascii ''home'', ascii ''contacts'']"
    "dir_at (machine me name peer files input) [RootDir] []"
    by (simp_all add: dir_at_def machine_lookups)
qed

lemma machine_identity:
  assumes "secrets_ok me"
  shows "holds_identity sample_primitives home (machine me name peer files input) (at_root ''key'') me"
proof -
  have "length unlock_key = 32" by (simp add: unlock_key_def)
  with assms identity_file [OF assms] show ?thesis
    unfolding holds_identity_def file_at_def
    by (auto simp: machine_lookups protocol_consts secrets_profile_ok sample_laws)
qed

lemma machine_pinned:
  assumes "validate_alias (ascii name)" and "secrets_ok peer"
  shows "pinned sample_primitives home (machine me name peer files input) (ascii name)
    = Some (profile_of peer)"
  using assms
  by (simp add: pinned_iff contact_path_child home_simps file_at_def machine_lookups
      secrets_profile_ok sample_laws)

lemma machine_fs_ok:
  "fs_ok (w_fs (machine me name peer [] input))"
  by (auto simp: fs_ok_def is_dir_at_def fs_get_def machine_def sample_world_def ascii_inject
      append_eq_Cons_conv contact_file_def split: if_splits)

section \<open>Alice writes to Bob\<close>

lemma plain_paths:
  "path_of_bytes (ascii ''/key'') = at_root ''key''"
  "path_of_bytes (ascii ''/letter'') = [RootDir] @ [Normal (ascii ''letter'')]"
  by (simp_all add: path_of_bytes_def ascii_def component_of_def List.map_filter_simps)

lemma plain_args:
  "parse_options [ascii ''bob'', ascii ''--unlock-key'', ascii ''/key'', ascii ''--output'', ascii ''/letter'']
     False True = Ok \<lparr>op_positionals = [ascii ''bob''], op_unlock = Some (at_root ''key''),
       op_alias = None, op_output = Some ([RootDir] @ [Normal (ascii ''letter'')])\<rparr>"
  "parse_open_options [ascii ''/letter'', ascii ''--unlock-key'', ascii ''/key''] =
     Ok (\<lparr>op_positionals = [ascii ''/letter''], op_unlock = Some (at_root ''key''), op_alias = None,
       op_output = None\<rparr>, False)"
proof -
  have v: "utf8_valid (ascii ''bob'')" "utf8_valid (ascii ''--unlock-key'')" "utf8_valid (ascii ''--output'')"
    "utf8_valid (ascii ''/letter'')" "utf8_valid (ascii ''/key'')"
    by (rule utf8_valid_ascii, simp add: ascii_def)+
  have p: "\<not> prefix [hyphen] (ascii ''bob'')" "\<not> prefix [hyphen] (ascii ''/letter'')"
    by (simp_all add: ascii_def)
  show "parse_options [ascii ''bob'', ascii ''--unlock-key'', ascii ''/key'', ascii ''--output'', ascii ''/letter'']
     False True = Ok \<lparr>op_positionals = [ascii ''bob''], op_unlock = Some (at_root ''key''),
       op_alias = None, op_output = Some ([RootDir] @ [Normal (ascii ''letter'')])\<rparr>"
    "parse_open_options [ascii ''/letter'', ascii ''--unlock-key'', ascii ''/key''] =
     Ok (\<lparr>op_positionals = [ascii ''/letter''], op_unlock = Some (at_root ''key''), op_alias = None,
       op_output = None\<rparr>, False)"
    by (simp_all add: parse_options_def parse_open_options_def no_options_def to_str_def v p
        ascii_inject plain_paths)
qed

lemma machine_with_file:
  "fs_ok (w_fs (machine me name peer [([ascii ''letter''], FileNode m c)] input))"
  "file_at (machine me name peer [([ascii ''letter''], FileNode m c)] input) (at_root ''letter'') = Some c"
proof -
  show "fs_ok (w_fs (machine me name peer [([ascii ''letter''], FileNode m c)] input))"
    by (auto simp: fs_ok_def is_dir_at_def fs_get_def machine_def sample_world_def ascii_inject
      append_eq_Cons_conv contact_file_def split: if_splits)
  show "file_at (machine me name peer [([ascii ''letter''], FileNode m c)] input) (at_root ''letter'') = Some c"
    by (simp add: file_at_def lookup_eval)
qed

lemma machine_contacts:
  assumes name: "validate_alias (ascii name)" and peer: "secrets_ok peer"
    and ok: "fs_ok (w_fs (machine me name peer files input))"
    and files: "\<forall>f \<in> set files. length (fst f) = 1"
  shows "contacts_in_order sample_primitives home (machine me name peer files input)"
proof -
  let ?w = "machine me name peer files input"
  have "fs_children files [ascii ''home'', ascii ''contacts''] = []"
    using files
  proof (induction files)
    case (Cons f files)
    then show ?case by (cases f; cases "fst f") (auto simp: fs_children_Cons)
  qed simp
  then have "fs_children (w_fs ?w) [ascii ''home'', ascii ''contacts''] = [contact_file (ascii name)]"
    by (simp add: machine_def sample_world_def fs_children_Cons ascii_inject)
  moreover have at: "lookup_node (w_fs ?w) True (w_cwd ?w) (sp_contacts home) =
      Inr ([ascii ''home'', ascii ''contacts''], DirNode dir_mode)"
    by (rule lookup_node_follow) (simp_all add: machine_lookups)
  ultimately have "set (contact_entries home ?w) \<subseteq> {contact_path home (ascii name)}"
    using name by (auto simp: contact_entries_def contact_path_child)
  then show ?thesis
    using ok machine_pinned [OF name peer] dir_at_real [OF machine_dirs(1)]
    unfolding contacts_in_order_def by blast
qed

text \<open>The letter, on Bob's machine, and what opening it prints.\<close>

abbreviation bob_with :: "bytes \<Rightarrow> world" where
  "bob_with blob \<equiv> machine bob ''alice'' alice [([ascii ''letter''], FileNode file_mode blob)] []"

lemma sample_opening:
  "\<exists>blob w'. (\<forall>cs. \<exists>mid. open_letter sample_primitives bob (profile_of bob) cs blob =
      Ok \<lparr>ol_body = ascii ''hello'', ol_message_id = mid, ol_sender = profile_of alice,
          ol_sender_trust = classify_sender cs (profile_of alice)\<rparr>) \<and>
    command_open sample_primitives home [ascii ''/letter'', ascii ''--unlock-key'', ascii ''/key'']
      (bob_with blob) = (Ok (), w') \<and> w_stdout w' = ascii ''hello''"
proof -
  have "length (ascii ''hello'') \<le> MAX_BODY_LEN" by (simp add: MAX_BODY_LEN_def)
  from sample_seal [OF this] obtain blob where blob: "seal sample_primitives alice (profile_of alice)
      (profile_of bob) (ascii ''hello'') sample_world = (Ok blob, after_random 4 sample_world)" by blast
  note opened = open_sealed [OF sample_laws(1,3,4) sample_aead_law sample_secrets(1,2) blob]
  then have "\<forall>cs. \<exists>l. open_letter sample_primitives bob (profile_of bob) cs blob = Ok l \<and>
      ol_body l = ascii ''hello''" by (metis opened_letter.select_convs(1))
  then obtain letter where opens: "open_letter sample_primitives bob (profile_of bob) cs blob = Ok (letter cs)"
    and body: "ol_body (letter cs) = ascii ''hello''" for cs by metis
  have cs: "contacts_in_order sample_primitives home (bob_with blob)"
    by (rule machine_contacts [OF valid_names(2) sample_secrets(1) machine_with_file(1)]) simp
  have at: "file_at (bob_with blob) (path_of_bytes (ascii ''/letter'')) = Some blob"
    using machine_with_file(2) by (simp add: plain_paths)
  from command_open_runs [OF plain_args(2) machine_simps(2) machine_identity [OF sample_secrets(2)] cs at opens]
  obtain w' where "command_open sample_primitives home
      [ascii ''/letter'', ascii ''--unlock-key'', ascii ''/key''] (bob_with blob) = (Ok (), w')"
    "w_stdout w' = ascii ''hello''" unfolding body machine_simps append_Nil by blast
  with opened show ?thesis by blast
qed

section \<open>A terminal\<close>

text \<open>The same machine with the unlock key in the environment and a user at the terminal.\<close>

definition at_terminal :: "bytes \<Rightarrow> world \<Rightarrow> world" where
  "at_terminal typed w = w\<lparr>w_env := (\<lambda>n. if n = ascii ''SEALED_UNLOCK_KEY'' then Some (ascii ''/key'') else None),
     w_tty := Some typed, w_stty := hex_stty\<rparr>"

lemma at_terminal_same:
  "file_at (at_terminal typed w) p = file_at w p" "pinned P sp (at_terminal typed w) = pinned P sp w"
  "holds_identity P sp (at_terminal typed w) u s = holds_identity P sp w u s"
  "contacts_in_order P sp (at_terminal typed w) = contacts_in_order P sp w"
  "dir_at (at_terminal typed w) d l = dir_at w d l" "w_fs (at_terminal typed w) = w_fs w"
  "random_total (at_terminal typed w) = random_total w"
  "types (at_terminal typed w) typed = no_faults w" "w_random (at_terminal typed w) = w_random w"
  "w_env (at_terminal typed w) (ascii ''SEALED_UNLOCK_KEY'') = Some (ascii ''/key'')"
proof -
  show f: "file_at (at_terminal typed w) q = file_at w q" for q
    by (simp add: file_at_def at_terminal_def)
  show p: "pinned P sp (at_terminal typed w) = pinned P sp w" by (simp add: pinned_def fun_eq_iff f)
  show "holds_identity P sp (at_terminal typed w) u s = holds_identity P sp w u s"
    by (simp add: holds_identity_def f)
  show "contacts_in_order P sp (at_terminal typed w) = contacts_in_order P sp w"
    by (simp add: contacts_in_order_def contact_entries_def real_dir_def p) (simp add: at_terminal_def)
qed (simp_all add: at_terminal_def dir_at_def random_total_def types_def no_faults_def)

lemma raw_at_terminal: "raw_terminal (at_terminal typed w)"
  using hex_stty_law by (simp add: raw_terminal_def at_terminal_def hex_stty_def raw_arguments_def ascii_inject)

lemma machine_pins:
  assumes pin: "pinned sample_primitives home (machine me name peer [] input) a = Some p"
    and peer: "secrets_ok peer"
  shows "p = profile_of peer"
proof -
  let ?w = "machine me name peer [] input"
  have at: "fs_get (w_fs ?w) ([ascii ''home'', ascii ''contacts''] @ [contact_file a]) =
      (if a = ascii name then Some (FileNode file_mode (profile_encode (profile_of peer))) else None)"
    by (simp add: machine_def sample_world_def fs_get_def ascii_inject)
  from pin have valid: "validate_alias a" by (simp add: pinned_iff)
  from pin have "a = ascii name"
    unfolding pinned_entry_file [OF machine_dirs(1) valid] at by (simp split: if_splits)
  with machine_pinned [of name peer me "[]" input] peer valid pin show ?thesis by simp
qed

lemma usable_bob: "usable_profile sample_primitives (at_terminal typed (machine me name peer files input)) (profile_of bob)"
proof -
  have "\<not> list_all (\<lambda>b. b = 0) (pr_x25519_dh sample_primitives (drawn 0 32 v) (pp_agreement_public (profile_of bob)))"
    if "w_random v = w_random sample_world" for v
  proof
    let ?d = "pr_x25519_dh sample_primitives (drawn 0 32 v) (pp_agreement_public (profile_of bob))"
    assume zero: "list_all (\<lambda>b. b = 0) ?d"
    let ?k = "3 * w_random_calls v"
    have n: "(768 :: byte) = 0" "(256 :: byte) = 0" "(512 :: byte) = 0" by simp_all
    have "?d ! 0 = word_of_nat (?k + 1) * 89" "?d ! 1 = word_of_nat (?k + 2) * 89" "1 < length ?d"
      using that by (simp_all add: drawn_def sample_primitives_def sample_world_def secrets_profile_def
          bob_def secrets_from_bytes_def n)
    moreover have "?d ! 0 = 0" "?d ! 1 = 0" using zero \<open>1 < length ?d\<close>
      unfolding list_all_length by (metis less_trans zero_less_one)+
    ultimately have "word_of_nat (?k + 2) * 89 - word_of_nat (?k + 1) * 89 = (0 :: byte)" by simp
    moreover have "word_of_nat (?k + 2) * 89 - word_of_nat (?k + 1) * 89 = (89 :: byte)"
      by (simp add: algebra_simps)
    moreover have "(89 :: byte) \<noteq> 0" by simp
    ultimately show False by metis
  qed
  then show ?thesis by (simp add: usable_profile_def at_terminal_same)
qed

lemma plain_letter: "plain_path (ascii ''/letter'') (ascii ''/letter'')"
proof -
  have "trim (ascii ''/letter'' @ [newline]) = ascii ''/letter''" by code_simp
  moreover have "newline \<notin> set (ascii ''/letter'')" "utf8_valid (ascii ''/letter'' @ [newline])"
    "strip_prefix (ascii ''~/'') (ascii ''/letter'') = None"
    by (simp_all add: ascii_def strip_prefix_def)
  ultimately show ?thesis by (simp add: plain_path_def ascii_inject) (simp add: ascii_def)
qed

lemma letter_hello: "letter_line (ascii ''hello'')"
  by (simp add: letter_line_def trim_line_end_def ascii_def)

end
