(* ===== verification/Guarantees.thy ===== *)
theory Guarantees
  imports Frames Samples
begin

text \<open>
  What a machine on which the program runs may rely on: what survives all runs, and what the
  store of contacts and the identity promise across them; with the places where the code does
  not keep what it promises.
\<close>

section \<open>Machines just set up\<close>

text \<open>The directories of the program, and nothing in them.\<close>

definition fresh :: world where
  "fresh = sample_world\<lparr>w_fs :=
     [([], DirNode 0x1ED),
      ([ascii ''home''], DirNode dir_mode),
      ([ascii ''home'', ascii ''identity''], DirNode dir_mode),
      ([ascii ''home'', ascii ''contacts''], DirNode dir_mode)]\<rparr>"

lemma fresh_simps [simp]: "no_faults fresh" "random_total fresh" "w_cwd fresh = []"
  by (simp_all add: fresh_def no_faults_def random_total_def sample_world_def)

lemma fresh_dirs:
  "dir_at fresh (at_root ''home'') [ascii ''home'']"
  "dir_at fresh [RootDir, Normal (ascii ''home''), Normal (ascii ''identity'')]
     [ascii ''home'', ascii ''identity'']"
  "dir_at fresh (sp_contacts home) [ascii ''home'', ascii ''contacts'']"
  "dir_at fresh [RootDir] []"
  "dir_at fresh [RootDir, ParentDir, Normal (ascii ''home'')] [ascii ''home'']"
  by (simp_all add: dir_at_def fresh_def lookup_eval)

lemma fresh_free:
  "fs_get (w_fs fresh) [ascii ''key''] = None"
  "fs_get (w_fs fresh) [ascii ''home'', ascii ''key''] = None"
  "fs_get (w_fs fresh) [ascii ''home'', ascii ''identity'', ascii ''identity.pub''] = None"
  "fs_get (w_fs fresh) [ascii ''home'', ascii ''identity'', ascii ''identity.key.enc''] = None"
  by (simp_all add: fresh_def fs_get_def ascii_inject)

lemma fresh_initialize:
  "\<exists>p w'. initialize sample_primitives home (at_root ''key'') fresh = (Ok p, w')"
proof -
  have "\<not> path_starts_with ([RootDir] @ [Normal (ascii ''key'')]) (sp_root home)"
    by (simp add: path_starts_with_def home_simps ascii_inject)
  from initialize_runs [OF sample_aead_law fresh_simps(1,2) this fresh_dirs(4) _ fresh_dirs(2,3),
      of "[ascii ''home'']" "ascii ''identity.pub''" "ascii ''identity.key.enc''"]
  show ?thesis using fresh_dirs(1) fresh_free by (simp add: home_simps ascii_inject)
qed

lemma no_faults_main_program: "no_faults w \<Longrightarrow> extends w w1 \<Longrightarrow> no_faults (snd (main_program P w1))"
  using main_program_spares [of w1 P] no_faults_same no_faults_extends by (auto simp: spares_def)

section \<open>What no run destroys\<close>

text \<open>C8: Whatever is run on a machine, with whatever arguments, input, faults and randomness, and
  whoever else adds to the tree: a name that has a pin keeps it, the same profile, for ever.\<close>

theorem pins_survive:
  assumes "session P w u" and "pinned P sp w a = Some p"
  shows "pinned P sp u a = Some p"
  using session_tree_spares [OF assms(1)] assms(2) by (rule machine_pins.view_kept)

text \<open>Witness of C8: Alice's pin of Bob, after a run of the program.\<close>

theorem pins_survive_witness:
  "pinned sample_primitives home
     (snd (main_program sample_primitives (machine alice ''bob'' bob [] (ascii ''hello'')))) (ascii ''bob'')
   = Some (profile_of bob)"
proof -
  let ?w = "machine alice ''bob'' bob [] (ascii ''hello'')"
  have "session sample_primitives ?w (snd (main_program sample_primitives ?w))"
    by (rule session.invoke [OF session.start surjective_pairing])
  from pins_survive [OF this machine_pinned [OF valid_names(1) sample_secrets(2)]] show ?thesis .
qed

text \<open>C13: No run, whether it succeeds or fails and at whatever point a fault stops it, changes or
  removes a file that is not a letter; so neither the identity, nor the unlock key, nor
  anything of others is lost.\<close>

theorem files_survive:
  assumes "session P w u" and "file_at w p = Some c" and "length c < MIN_BLOB_LEN"
  shows "file_at u p = Some c"
  using session_file_at [OF assms(1,2)] assms(3) by (simp add: is_blob_def)

text \<open>Witness of C13: the unlock key of Alice, after a run of the program.\<close>

theorem files_survive_witness:
  "file_at (snd (main_program sample_primitives (machine alice ''bob'' bob [] []))) (at_root ''key'')
   = Some (encode_unlock_key unlock_key)"
proof -
  let ?w = "machine alice ''bob'' bob [] []"
  have s: "session sample_primitives ?w (snd (main_program sample_primitives ?w))"
    by (rule session.invoke [OF session.start surjective_pairing])
  have f: "file_at ?w (at_root ''key'') = Some (encode_unlock_key unlock_key)"
    by (simp add: file_at_def machine_lookups)
  have "length (encode_unlock_key unlock_key) < MIN_BLOB_LEN"
    using length_encode_unlock_key [of unlock_key] by (simp add: unlock_key_def protocol_consts)
  from files_survive [OF s f this] show ?thesis .
qed

text \<open>C14: Every file that a run of the program makes, on every path and under every fault, is one
  that its owner alone may read and write and nobody may execute; no file that was there gets
  other permissions than these or its own.\<close>

theorem files_private:
  assumes "main_program P w = (status, w')" and "fs_get (w_fs w') l = Some (FileNode m c)"
  shows "m AND NOT 0x180 = 0 \<or> (\<exists>c'. fs_get (w_fs w) l = Some (FileNode m c'))"
  using modes.main_program_kept [OF assms(1)] assms(2)
  by (simp add: private_files_def private_mode_def file_mode_def)

text \<open>Witness of C14: the unlock key on Alice's machine, after a run of the program.\<close>

theorem files_private_witness:
  "\<exists>m c. fs_get (w_fs (snd (main_program sample_primitives (machine alice ''bob'' bob [] []))))
     [ascii ''key''] = Some (FileNode m c) \<and> m AND NOT 0x180 = 0"
proof -
  let ?w = "machine alice ''bob'' bob [] []"
  have at: "fs_get (w_fs ?w) [ascii ''key''] = Some (FileNode file_mode (encode_unlock_key unlock_key))"
    by (simp add: machine_def sample_world_def fs_get_def ascii_inject)
  have "length (encode_unlock_key unlock_key) < MIN_BLOB_LEN"
    using length_encode_unlock_key [of unlock_key] by (simp add: unlock_key_def protocol_consts)
  with main_program_spares [of ?w sample_primitives] at obtain m where
    m: "fs_get (w_fs (snd (main_program sample_primitives ?w))) [ascii ''key'']
      = Some (FileNode m (encode_unlock_key unlock_key))"
    by (fastforce simp: spares_def fs_spares_def is_blob_def elim: same_node.elims)
  from files_private [OF surjective_pairing m] at have "m AND NOT 0x180 = 0"
    by (auto simp: file_mode_def)
  with m show ?thesis by blast
qed

section \<open>Contacts\<close>

text \<open>C9: Over a name that is free or holds a pin, trusting a profile does exactly what the
  specification of a map written once does: the result, and every pin there is afterwards.\<close>

theorem trust_refines:
  assumes "no_faults w" and "dir_at w (sp_contacts sp) l" and "validate_alias a"
    and "file_at w src = Some (profile_encode p)" and "profile_ok P p"
    and "clean_name P sp w a" and "trust_profile P sp src a w = (r, w')"
  shows "pin_spec (pinned P sp w) a p = (r, pinned P sp w')"
  using assms by (rule trust_profile_refines)

text \<open>Witness of C9: Mallory's profile under the name of Bob is refused, and Bob stays pinned.\<close>

theorem trust_refines_witness:
  "\<exists>w'. trust_profile sample_primitives home (at_root ''mallory.pub'') (ascii ''bob'')
      (machine alice ''bob'' bob
        [([ascii ''mallory.pub''], FileNode file_mode (profile_encode (profile_of mallory)))] [])
      = (Err IdentityMismatch, w') \<and>
    pinned sample_primitives home w' (ascii ''bob'') = Some (profile_of bob)"
proof -
  let ?w = "machine alice ''bob'' bob
    [([ascii ''mallory.pub''], FileNode file_mode (profile_encode (profile_of mallory)))] []"
  note pin = machine_pinned [OF valid_names(1) sample_secrets(2)]
  have src: "file_at ?w (at_root ''mallory.pub'') = Some (profile_encode (profile_of mallory))"
    by (simp add: file_at_def lookup_eval)
  have clean: "clean_name sample_primitives home ?w (ascii ''bob'')" by (simp add: clean_name_def pin)
  obtain r w' where run: "trust_profile sample_primitives home (at_root ''mallory.pub'') (ascii ''bob'') ?w
      = (r, w')" by fastforce
  from trust_refines [OF machine_simps(2) machine_dirs(1) valid_names(1) src sample_profiles(3) clean run]
  have r: "r = Err IdentityMismatch" and same: "pinned sample_primitives home ?w = pinned sample_primitives home w'"
    using bob_not_mallory by (auto simp: pin_spec_def pin)
  have "pinned sample_primitives home w' (ascii ''bob'') = Some (profile_of bob)"
    using pin by (simp only: same [symmetric])
  with r run show ?thesis by blast
qed

text \<open>A name that is free on the machine.\<close>

lemma carol_free:
  assumes "\<forall>f \<in> set files. length (fst f) = 1"
  shows "lookup_node (w_fs (machine me ''bob'' peer files input)) False
      (w_cwd (machine me ''bob'' peer files input)) (contact_path home (ascii ''carol'')) = Inl NotFoundKind"
proof -
  have "fs_get files [ascii ''home'', ascii ''contacts'', contact_file (ascii ''carol'')] = None"
    using assms by (fastforce simp: fs_get_def map_of_eq_None_iff)
  then show ?thesis
    using lookup_entry(2) [OF machine_dirs(1), of me "''bob''" peer files input "contact_file (ascii ''carol'')"]
    by (simp add: contact_path_child [OF valid_names(3)] home_simps machine_def sample_world_def fs_get_def
        ascii_inject)
qed

text \<open>C17: Looking a name up gives what the map has for it, and an error when it has nothing.\<close>

theorem find_refines:
  assumes "no_faults w" and "validate_alias a" and "clean_name P sp w a"
  shows "fst (contact_of P sp a w) = find_spec (pinned P sp w) a"
  using assms by (rule contact_of_refines)

text \<open>Witness of C17: Alice has no Carol.\<close>

theorem find_refines_witness:
  "fst (contact_of sample_primitives home (ascii ''carol'') (machine alice ''bob'' bob [] []))
    = Err (NotFound ''contact is not pinned'')"
proof -
  let ?w = "machine alice ''bob'' bob [] []"
  have none: "lookup_node (w_fs ?w) False (w_cwd ?w) (contact_path home (ascii ''carol'')) = Inl NotFoundKind"
    by (rule carol_free) simp
  then have "clean_name sample_primitives home ?w (ascii ''carol'')" by (simp add: clean_name_def)
  from find_refines [OF machine_simps(2) valid_names(3) this] none show ?thesis
    by (simp add: find_spec_def pinned_def file_at_def)
qed

text \<open>C15: A name that was trusted is found again with the profile that was accepted, however often
  the program ran in between; and no later trust under the name accepts another one.\<close>

theorem pin_found_again:
  assumes "trust_profile P sp src a w = (Ok p, w1)" and "session P w1 w2"
  shows "(\<forall>c w3. contact_of P sp a w2 = (Ok c, w3) \<longrightarrow> c = \<lparr>ct_alias = a, ct_profile = p\<rparr>) \<and>
    (no_faults w2 \<longrightarrow> (\<exists>w3. contact_of P sp a w2 = (Ok \<lparr>ct_alias = a, ct_profile = p\<rparr>, w3))) \<and>
    (\<forall>src' q w3. trust_profile P sp src' a w2 = (Ok q, w3) \<longrightarrow> q = p)"
proof (intro conjI allI impI)
  have put: "puts_pin P sp a p w w1" using assms(1) by (auto simp: puts_pin_def)
  note spared = session_tree_spares [OF assms(2)]
  note again = machine_pins.puts_gets [OF put spared]
  show "c = \<lparr>ct_alias = a, ct_profile = p\<rparr>" if "contact_of P sp a w2 = (Ok c, w3)" for c w3
    using again(1) [of "ct_profile c" w3] that contact_of_Ok(1) [OF that] by (cases c) (simp add: gets_pin_def)
  show "\<exists>w3. contact_of P sp a w2 = (Ok \<lparr>ct_alias = a, ct_profile = p\<rparr>, w3)" if "no_faults w2"
    using again(2) that by (simp add: gets_pin_def)
  show "q = p" if "trust_profile P sp src' a w2 = (Ok q, w3)" for src' q w3
    using machine_pins.puts_once(1) [OF trust_profile_Ok(1) [OF assms(1)] spared] that
    by (auto simp: puts_pin_def)
qed

text \<open>Witness of C15: Alice trusts Mallory as Carol, runs the program, and finds her.\<close>

theorem pin_found_again_witness:
  "\<exists>w1 w3. trust_profile sample_primitives home (at_root ''mallory.pub'') (ascii ''carol'')
      (machine alice ''bob'' bob
        [([ascii ''mallory.pub''], FileNode file_mode (profile_encode (profile_of mallory)))] [])
      = (Ok (profile_of mallory), w1) \<and>
    contact_of sample_primitives home (ascii ''carol'') (snd (main_program sample_primitives w1))
      = (Ok \<lparr>ct_alias = ascii ''carol'', ct_profile = profile_of mallory\<rparr>, w3)"
proof -
  let ?w = "machine alice ''bob'' bob
    [([ascii ''mallory.pub''], FileNode file_mode (profile_encode (profile_of mallory)))] []"
  have src: "file_at ?w (at_root ''mallory.pub'') = Some (profile_encode (profile_of mallory))"
    by (simp add: file_at_def lookup_eval)
  have ne: "sp_contacts home \<noteq> []" by (simp add: home_simps)
  have free: "lookup_node (w_fs ?w) False (w_cwd ?w) (contact_path home (ascii ''carol'')) = Inl NotFoundKind"
    by (rule carol_free) simp
  from trust_profile_free [OF machine_simps(2) valid_names(3) dir_at_real [OF machine_dirs(1)] src
      sample_profiles(3) free ne]
  obtain w1 where w1: "trust_profile sample_primitives home (at_root ''mallory.pub'') (ascii ''carol'') ?w
      = (Ok (profile_of mallory), w1)" by (metis prod.collapse)
  have s: "session sample_primitives w1 (snd (main_program sample_primitives w1))"
    by (rule session.invoke [OF session.start surjective_pairing])
  have "extends ?w w1" using w1 by (rule keepsD [OF keeps_trust_profile])
  then have "no_faults (snd (main_program sample_primitives w1))"
    using no_faults_main_program fresh_simps(1) machine_simps(2) by blast
  with pin_found_again [OF w1 s] w1 show ?thesis by blast
qed

text \<open>C16: The list of contacts is exactly the pins: every pin once, nothing that is not pinned, in the
  order of their files.\<close>

theorem contacts_exact:
  assumes "no_faults w" and "fs_ok (w_fs w)" and "real_dir w (sp_contacts sp)"
    and "all_contacts P sp w = (Ok cs, w')"
  shows "set cs = {c. pinned P sp w (ct_alias c) = Some (ct_profile c)} \<and> distinct (map ct_alias cs) \<and>
    sorted (map (\<lambda>c. contact_path sp (ct_alias c)) cs)"
  using all_contacts_exact [OF assms] by blast

text \<open>Witness of C16: Alice's contacts are Bob.\<close>

theorem contacts_exact_witness:
  "\<exists>cs w'. all_contacts sample_primitives home (machine alice ''bob'' bob [] []) = (Ok cs, w') \<and>
    \<lparr>ct_alias = ascii ''bob'', ct_profile = profile_of bob\<rparr> \<in> set cs \<and> distinct (map ct_alias cs)"
proof -
  let ?w = "machine alice ''bob'' bob [] []"
  have "contacts_in_order sample_primitives home ?w"
    by (rule machine_contacts [OF valid_names(1) sample_secrets(2) machine_fs_ok]) simp
  from contacts_in_order_all [OF machine_simps(2) this] obtain cs w' where
    cs: "all_contacts sample_primitives home ?w = (Ok cs, w')" by blast
  from contacts_exact [OF machine_simps(2) machine_fs_ok dir_at_real [OF machine_dirs(1)] cs] cs
    machine_pinned [OF valid_names(1) sample_secrets(2)] show ?thesis by auto
qed

text \<open>C39: When the very first call on the directory of contacts fails, whatever the error, the list is
  empty and no error is reported: every sender is then shown as unknown.\<close>

theorem contacts_fault:
  assumes "w_faults w (w_calls w) = Some f"
  shows "fst (all_contacts P sp w) = Ok [] \<and> classify_sender [] p = Unknown"
proof -
  obtain k n where "f = (k, n)" by (cases f)
  with assms have "path_exists (sp_contacts sp) w = (Ok False, tick w)"
    by (simp add: path_exists_def bind_st_def attempt_def metadata_def os_query_def os_call_def)
  then show ?thesis by (simp add: all_contacts_def classify_sender_def bind_st_def)
qed

text \<open>Witness of C39: Alice has pinned Bob, and a fault hides it.\<close>

theorem contacts_fault_witness:
  "pinned sample_primitives home (machine alice ''bob'' bob [] []) (ascii ''bob'') = Some (profile_of bob) \<and>
    fst (all_contacts sample_primitives home
      ((machine alice ''bob'' bob [] [])\<lparr>w_faults := \<lambda>_. Some (OtherKind, 0)\<rparr>)) = Ok []"
proof -
  let ?w = "(machine alice ''bob'' bob [] [])\<lparr>w_faults := \<lambda>_. Some (OtherKind, 0)\<rparr>"
  have "w_faults ?w (w_calls ?w) = Some (OtherKind, 0)" by simp
  from contacts_fault [OF this] machine_pinned [OF valid_names(1) sample_secrets(2)] show ?thesis by blast
qed

section \<open>The identity\<close>

text \<open>C12: What \<open>initialize\<close> has made can be used: after any number of runs, with the unlock key it
  wrote, the identity it reported is loaded; and the public identity is never made again.\<close>

theorem initialize_then_load:
  assumes "hash_law P" "dh_law P" "sign_law P" "aead_law P"
    and "initialize P sp u w = (Ok profile, w1)" and "session P w1 w2" and "no_faults w2"
  shows "(\<exists>secrets w3. load_identity P sp u w2 = (Ok (secrets, profile), w3) \<and>
      secrets_ok secrets \<and> profile = secrets_profile P secrets) \<and>
    (\<exists>w3. export_profile P sp w2 = (Ok profile, w3)) \<and>
    (\<forall>u' r w3. initialize P sp u' w2 = (r, w3) \<longrightarrow> (\<nexists>q. r = Ok q))"
proof (intro conjI allI impI notI)
  have kept: "file_at w1 q = Some c \<Longrightarrow> \<not> is_blob c \<Longrightarrow> file_at w2 q = Some c" for q c
    using assms(6) by (rule session_file_at)
  from initialize_load [OF assms(1-5) kept assms(7)] obtain s w3 where
    s: "load_identity P sp u w2 = (Ok (s, profile), w3)" "secrets_ok s" by blast
  then show "\<exists>secrets w3. load_identity P sp u w2 = (Ok (secrets, profile), w3) \<and>
      secrets_ok secrets \<and> profile = secrets_profile P secrets"
    using load_identity_Ok by blast
  from load_identity_Ok [OF s(1)] have ok: "profile_ok P profile"
    and f: "file_at w2 (sp_identity_public sp) = Some (profile_encode profile)" by blast+
  from export_profile_runs [OF assms(7) ok f] show "\<exists>w3. export_profile P sp w2 = (Ok profile, w3)"
    by blast
  fix u' r w3 assume "initialize P sp u' w2 = (r, w3)" and "\<exists>q. r = Ok q"
  then obtain q where "initialize P sp u' w2 = (Ok q, w3)" by blast
  from initialize_fresh(1) [OF this] f show False by simp
qed

text \<open>Witness of C12: a new identity, a run of the program, and the identity is there.\<close>

theorem initialize_then_load_witness:
  "\<exists>p w1 secrets w3. initialize sample_primitives home (at_root ''key'') fresh = (Ok p, w1) \<and>
    load_identity sample_primitives home (at_root ''key'') (snd (main_program sample_primitives w1))
      = (Ok (secrets, p), w3)"
proof -
  from fresh_initialize obtain p w1 where
    run: "initialize sample_primitives home (at_root ''key'') fresh = (Ok p, w1)" by blast
  have s: "session sample_primitives w1 (snd (main_program sample_primitives w1))"
    by (rule session.invoke [OF session.start surjective_pairing])
  have "extends fresh w1" using run by (rule keepsD [OF keeps_initialize])
  then have "no_faults (snd (main_program sample_primitives w1))"
    using no_faults_main_program fresh_simps(1) machine_simps(2) by blast
  from initialize_then_load [OF sample_laws(1,3,4) sample_aead_law run s this] run show ?thesis by blast
qed

text \<open>C18: \<open>initialize\<close> never replaces a file: on every outcome and under every fault each file is as
  it was; and it succeeds only where the unlock key, the public and the encrypted identity
  were all missing.\<close>

theorem initialize_never_overwrites:
  assumes "initialize P sp u w = (r, w')"
  shows "(\<forall>p c. file_at w p = Some c \<longrightarrow> file_at w' p = Some c) \<and>
    (\<forall>profile. r = Ok profile \<longrightarrow> file_at w u = None \<and> file_at w (sp_identity_public sp) = None \<and>
       file_at w (sp_identity_encrypted sp) = None \<and>
       file_at w' (sp_identity_public sp) = Some (profile_encode profile))"
proof (intro conjI allI impI)
  have x: "extends w w'" using assms by (rule keepsD [OF keeps_initialize])
  show "file_at w' p = Some c" if "file_at w p = Some c" for p c using x that by (rule file_at_extends)
  fix profile assume "r = Ok profile"
  with assms have run: "initialize P sp u w = (Ok profile, w')" by simp
  from initialize_fresh [OF this] initialize_Ok [OF this] show
    "file_at w u = None" "file_at w (sp_identity_public sp) = None"
    "file_at w (sp_identity_encrypted sp) = None"
    "file_at w' (sp_identity_public sp) = Some (profile_encode profile)" by auto
qed

text \<open>Witness of C18: on a machine with an identity, nothing changes.\<close>

theorem initialize_never_overwrites_witness:
  "\<exists>r w'. initialize sample_primitives home (at_root ''new'') (machine alice ''bob'' bob [] []) = (r, w') \<and>
    file_at w' (at_root ''key'') = Some (encode_unlock_key unlock_key) \<and> (\<nexists>p. r = Ok p)"
proof -
  let ?w = "machine alice ''bob'' bob [] []"
  obtain r w' where run: "initialize sample_primitives home (at_root ''new'') ?w = (r, w')" by fastforce
  have f: "file_at ?w (at_root ''key'') = Some (encode_unlock_key unlock_key)"
    "file_at ?w (sp_identity_public home) = Some (profile_encode (profile_of alice))"
    by (simp_all add: file_at_def machine_lookups)
  from initialize_never_overwrites [OF run] f have
    "file_at w' (at_root ''key'') = Some (encode_unlock_key unlock_key)" "\<nexists>p. r = Ok p" by auto
  with run show ?thesis by blast
qed

text \<open>C37: The check that the unlock key is outside of the state directory compares the spelling of
  paths. Given by any other spelling, the state directory itself is accepted, and the key
  lies beside the identity it unlocks.\<close>

theorem unlock_key_inside:
  assumes "aead_law P" and "no_faults w" and "random_total w"
    and "dir_at w (sp_root sp) r" and "dir_at w d r" and "\<not> path_starts_with (d @ [Normal n]) (sp_root sp)"
    and "dir_at w i (r @ [k])" and "dir_at w (sp_contacts sp) c"
    and "sp_identity_public sp = i @ [Normal pub]" and "sp_identity_encrypted sp = i @ [Normal enc]"
    and "pub \<noteq> enc" and "fs_get (w_fs w) (r @ [n]) = None"
    and "fs_get (w_fs w) (r @ [k, pub]) = None" and "fs_get (w_fs w) (r @ [k, enc]) = None"
  shows "\<exists>p w' key m. initialize P sp (d @ [Normal n]) w = (Ok p, w') \<and>
    fs_get (w_fs w') (r @ [n]) = Some (FileNode m (encode_unlock_key key))"
proof -
  from initialize_runs [OF assms(1-3,6,5,4,7-10)] assms(11-14) obtain p w' where
    run: "initialize P sp (d @ [Normal n]) w = (Ok p, w')" by auto
  from initialize_Ok [OF run] obtain key where
    key: "file_at w' (d @ [Normal n]) = Some (encode_unlock_key key)" by blast
  have "extends w w'" using run by (rule keepsD [OF keeps_initialize])
  from dir_at_extends [OF this assms(5)] have "dir_at w' d r" .
  from file_at_entry [OF this, of n] key obtain m where
    "fs_get (w_fs w') (r @ [n]) = Some (FileNode m (encode_unlock_key key))"
    by (auto split: option.splits node.splits)
  with run show ?thesis by blast
qed

text \<open>Witness of C37: \<open>/../home/key\<close> when the state directory is \<open>/home\<close>.\<close>

theorem unlock_key_inside_witness:
  "\<exists>p w' key m. initialize sample_primitives home
      ([RootDir, ParentDir, Normal (ascii ''home'')] @ [Normal (ascii ''key'')]) fresh = (Ok p, w') \<and>
    fs_get (w_fs w') ([ascii ''home''] @ [ascii ''key'']) = Some (FileNode m (encode_unlock_key key))"
proof -
  have root: "dir_at fresh (sp_root home) [ascii ''home'']" using fresh_dirs(1) by (simp add: home_simps)
  have di: "dir_at fresh [RootDir, Normal (ascii ''home''), Normal (ascii ''identity'')]
    ([ascii ''home''] @ [ascii ''identity''])" using fresh_dirs(2) by simp
  have lexical: "\<not> path_starts_with ([RootDir, ParentDir, Normal (ascii ''home'')] @ [Normal (ascii ''key'')])
    (sp_root home)" by (simp add: path_starts_with_def home_simps)
  show ?thesis
    by (rule unlock_key_inside [OF sample_aead_law fresh_simps(1,2) root fresh_dirs(5) lexical di fresh_dirs(3),
          where pub = "ascii ''identity.pub''" and enc = "ascii ''identity.key.enc''"])
      (simp_all add: home_simps fresh_free ascii_inject)
qed

text \<open>C38: Given the place of the public identity by another spelling, \<open>initialize\<close> writes the unlock key
  there, fails at its next write, and leaves the key behind; from then on no run of
  \<open>initialize\<close> succeeds, with whatever path, after anything the program does.\<close>

theorem initialize_locks_out:
  assumes "aead_law P" and "no_faults w" and "random_total w"
    and "\<not> path_starts_with (d @ [Normal pub]) (sp_root sp)"
    and "dir_at w d k" and "dir_at w (sp_root sp) r" and "dir_at w i k" and "dir_at w (sp_contacts sp) c"
    and "sp_identity_public sp = i @ [Normal pub]" and "sp_identity_encrypted sp = i @ [Normal enc]"
    and "fs_get (w_fs w) (k @ [pub]) = None" and "fs_get (w_fs w) (k @ [enc]) = None"
  shows "\<exists>e w1 key. initialize P sp (d @ [Normal pub]) w = (Err e, w1) \<and>
    file_at w1 (sp_identity_public sp) = Some (encode_unlock_key key) \<and>
    (\<forall>w2 u r w3. session P w1 w2 \<and> initialize P sp u w2 = (r, w3) \<longrightarrow> (\<nexists>p. r = Ok p))"
proof -
  from initialize_collides [OF assms] obtain e w1 key where
    run: "initialize P sp (d @ [Normal pub]) w = (Err e, w1)" and key: "length key = 32"
    and f: "file_at w1 (sp_identity_public sp) = Some (encode_unlock_key key)"
    by (auto simp: assms(9))
  have "\<not> is_blob (encode_unlock_key key)"
    using length_encode_unlock_key [OF key] by (simp add: is_blob_def protocol_consts)
  with f have "\<nexists>p. r = Ok p" if "session P w1 w2" "initialize P sp u w2 = (r, w3)" for w2 u r w3
    using session_file_at [OF that(1)] initialize_fresh(1) [of P sp u w2 _ w3] that(2) by fastforce
  with run f show ?thesis by blast
qed

text \<open>Witness of C38: \<open>/../home/identity/identity.pub\<close> when the state directory is \<open>/home\<close>.\<close>

theorem initialize_locks_out_witness:
  "\<exists>e w1. initialize sample_primitives home
      ([RootDir, ParentDir, Normal (ascii ''home''), Normal (ascii ''identity'')] @ [Normal (ascii ''identity.pub'')])
      fresh = (Err e, w1) \<and>
    (\<nexists>p w2. initialize sample_primitives home (at_root ''key'') (snd (main_program sample_primitives w1)) = (Ok p, w2))"
proof -
  let ?d = "[RootDir, ParentDir, Normal (ascii ''home''), Normal (ascii ''identity'')]"
  have lexical: "\<not> path_starts_with (?d @ [Normal (ascii ''identity.pub'')]) (sp_root home)"
    by (simp add: path_starts_with_def home_simps)
  have d: "dir_at fresh ?d [ascii ''home'', ascii ''identity'']"
    by (simp add: dir_at_def fresh_def lookup_eval)
  have root: "dir_at fresh (sp_root home) [ascii ''home'']" using fresh_dirs(1) by (simp add: home_simps)
  have paths: "sp_identity_public home = [RootDir, Normal (ascii ''home''), Normal (ascii ''identity'')]
      @ [Normal (ascii ''identity.pub'')]"
    "sp_identity_encrypted home = [RootDir, Normal (ascii ''home''), Normal (ascii ''identity'')]
      @ [Normal (ascii ''identity.key.enc'')]" by (simp_all add: home_simps)
  have free: "fs_get (w_fs fresh) ([ascii ''home'', ascii ''identity''] @ [ascii ''identity.pub'']) = None"
    "fs_get (w_fs fresh) ([ascii ''home'', ascii ''identity''] @ [ascii ''identity.key.enc'']) = None"
    by (simp_all add: fresh_free)
  from initialize_locks_out [OF sample_aead_law fresh_simps(1,2) lexical d root fresh_dirs(2,3) paths free]
  obtain e w1 where run: "initialize sample_primitives home (?d @ [Normal (ascii ''identity.pub'')]) fresh = (Err e, w1)"
    and locked: "\<forall>w2 u r w3. session sample_primitives w1 w2 \<and>
      initialize sample_primitives home u w2 = (r, w3) \<longrightarrow> (\<nexists>p. r = Ok p)" by blast
  have "session sample_primitives w1 (snd (main_program sample_primitives w1))"
    by (rule session.invoke [OF session.start surjective_pairing])
  with locked run show ?thesis by blast
qed

end
