(* ===== verification/Spec2Isabelle.thy ===== *)
theory Spec2Isabelle
  imports Guarantees
begin

text \<open>
  Sealed, the program under \<open>src/src\<close>, writes and opens encrypted letters offline. A person has
  an identity (two secret keys, kept encrypted under an unlock key in a file of its own) and a
  directory of contacts, in which names are pinned to public profiles. \<open>seal\<close> makes of a letter
  a blob for a pinned contact; \<open>open\<close> gives the letter back, with a verdict on the sender, and
  removes the blob. Both are commands of a command line, and choices of a menu in the terminal.
  This development models all of it, from the bytes of the formats to the exit status, and
  proves what makes it correct.

  The theories, in the order of the calls, from the inside to the outside:

  \<^item> Prelude: results and errors (\<open>error.rs\<close>), the monad of computations that change a state and
    may fail, and the locale \<open>frame\<close>, the interface of every relation between states that a
    computation keeps. Str: what the code uses of the strings of the standard library.
  \<^item> Format (\<open>format.rs\<close>): hexadecimal digits and the reader of bytes. The locale \<open>codec\<close> is the
    contract of an encoder and its parser; it is interpreted for hexadecimal here, and for
    profiles and unlock keys in Identity. Protocol (\<open>protocol.rs\<close>): the constants and the
    buckets of blob lengths.
  \<^item> FileSystem and World: what the program sees of the operating system. A tree is a list of
    places with directories, files, links and other nodes and their modes; paths are resolved
    component by component. A world has the tree, the environment, the random source, the
    streams, the terminal, and, for each system call by its number, the fault it meets, if any.
  \<^item> Primitives: the vendored cryptography as a record of functions, parameters of the model,
    with the laws of their documented behaviour (output lengths, that decryption inverts
    encryption, that signatures verify, that a shared secret is the same on both sides). Every
    law holds at the instance \<open>sample_primitives\<close>, which serves the witnesses only.
  \<^item> Entropy, Identity, Crypto, Contact, Message (the files of the same names): random bytes, keys
    and profiles, the derivations and signed bytes, contacts, and the letters. \<open>open_letter\<close> is
    \<open>message::open\<close>.
  \<^item> Storage (\<open>storage.rs\<close>): the state directory, one definition per function. Store_Facts: exact
    descriptions of its operations, and the locale \<open>write_once\<close>, the contract of a store in
    which a key keeps its value, interpreted for the pins and for the public identity.
    Store_Runs: when its operations succeed. Contact_Store: the refinement of the map of pins.
  \<^item> Console: the standard streams, \<open>/dev/tty\<close>, \<open>/bin/stty\<close>. Cli: the commands and options of
    \<open>cli.rs\<close>. Interactive: its menu, wizards, picker and prompts. Program: \<open>run\<close>, \<open>main\<close>, and
    sessions of any number of runs with anything else that only adds to the tree in between.
  \<^item> Frames: what all system calls keep, whole runs keep, as the locale \<open>os_frame\<close>, interpreted for
    the modes of files and for the shape of the tree. Delivery: \<open>seal\<close> and \<open>open\<close> to their ends,
    and what \<open>open\<close> can have printed; Wizards: the same for the choices of the menu. Samples: people and machines for the
    witnesses. Guarantees: what a machine may rely on over
    many runs. This theory: the way of a letter through all of it.

  Correspondence. A Rust function is a definition of the same name (renamed where HOL has the
  name: \<open>contact_of\<close>, \<open>open_letter\<close>, \<open>main_program\<close>, \<open>highlight\<close>); \<open>Result\<close> is a sum with the
  constructors of \<open>Error\<close> on the left; \<open>?\<close> is \<open>bind_st\<close>; a discarded result is \<open>attempt\<close>; loops
  are recursive functions, and a part of a function that a proof speaks of (the end of \<open>open\<close>
  after its checks, the body of a loop) is a definition of its own, called where the code has
  it. Bytes are 8-bit words, lengths natural numbers with the checked and saturating operations
  of a \<open>usize\<close> of 64 bits where the code uses them.

  What is shown. Letters arrive: what \<open>seal\<close> writes, \<open>open\<close> prints on any machine of the
  recipient. \<open>open\<close> accepts exactly the blobs that are encryptions of the documented layout with
  the right fingerprint and signature (\<open>letter_in\<close> of Message), gives one error for all others,
  and what it prints is such a letter with a true verdict. Pins and identities, once made, survive every run, every error and every fault, and
  trusting refines a map that is written once. Files are made private, are never replaced, and
  the blob is removed last. Parsers accept exactly what encoders produce. The terminal is
  restored, and the picker takes the entry the keys lead to.

  Bounds. Path resolution follows at most 40 links, as Linux does, and then fails as Linux does:
  the bound is part of the behaviour. The loops over keys and lines of the terminal need no
  bound, since each turn uses up input; the doubling of the bucket, which may run for ever from
  zero, is a partial function, and ends from every other value.

  Not modelled. \<open>stego.rs\<close> has two traits without an implementation; \<open>lib.rs\<close> names modules;
  \<open>From\<close> of \<open>error.rs\<close> appears as the constructor it applies, \<open>source\<close> has no caller. Branches for
  systems other than Unix are left out, and so is the wiping of memory, since values have no
  memory here. Permissions are recorded, but refusals by the system appear as faults. What
  others do to the tree happens between runs, not between two calls of one run. A failing
  \<open>println\<close> would panic; printing to the standard streams is taken to succeed except for the
  letter, the blob and the profile, which are written by calls that report their errors. The
  terminal delivers whole lines to the line reader. The theorems assume no computational hardness:
  that a stranger cannot make a signature is not stated here; what is stated is that a letter
  shown carries one that verifies under the keys shown, over bytes that no other letter, reader
  or sender has. An empty request for randomness counts as a call (theory World).
\<close>

section \<open>Letters\<close>

text \<open>C1: A letter on the standard input of a sender who has an identity and has pinned the
  recipient is written by \<open>seal\<close> to a free place; and wherever that blob is given to \<open>open\<close> on
  a machine that holds the recipient's identity, exactly the letter comes out on the standard
  output, and the sender is shown as what the recipient's own pins make of it.\<close>

theorem letter_delivered:
  assumes laws: "hash_law P" "hkdf_law P" "dh_law P" "sign_law P" "aead_law P"
    and sealing: "parse_options args False True = Ok \<lparr>op_positionals = [a], op_unlock = Some u,
        op_alias = None, op_output = Some (d @ [Normal n])\<rparr>"
    and utf8: "utf8_valid a" and nf: "no_faults w"
    and sender: "holds_identity P sp w u ss" and rs: "secrets_ok rs"
    and pin: "pinned P sp w a = Some (secrets_profile P rs)"
    and body: "length (w_stdin w) \<le> MAX_BODY_LEN" and rand: "random_available 4 w"
    and dh: "\<not> list_all (\<lambda>b. b = 0) (pr_x25519_dh P (drawn 0 32 w)
        (pp_agreement_public (secrets_profile P rs)))"
    and out: "dir_at w d l" "fs_get (w_fs w) (l @ [n]) = None"
  shows "\<exists>w' blob. command_seal P sp args w = (Ok (), w') \<and>
    file_at w' (d @ [Normal n]) = Some blob \<and>
    (\<forall>v sp' args' b u' keep. no_faults v \<and> holds_identity P sp' v u' rs \<and>
       contacts_in_order P sp' v \<and> file_at v (path_of_bytes b) = Some blob \<and>
       parse_open_options args' = Ok (\<lparr>op_positionals = [b], op_unlock = Some u',
         op_alias = None, op_output = None\<rparr>, keep) \<longrightarrow>
       (\<exists>v' contacts before after. command_open P sp' args' v = (Ok (), v') \<and>
          set contacts = {c. pinned P sp' v (ct_alias c) = Some (ct_profile c)} \<and>
          w_stdout v' = w_stdout v @ w_stdin w \<and>
          w_stderr v' = before @ sender_line (classify_sender contacts (secrets_profile P ss))
            @ after))"
proof -
  from command_seal_runs [OF laws sealing utf8 nf sender pin body rand dh out]
  obtain w' blob s where run: "command_seal P sp args w = (Ok (), w')"
    "file_at w' (d @ [Normal n]) = Some blob"
    and blob: "seal P ss (secrets_profile P ss) (secrets_profile P rs) (w_stdin w) s
      = (Ok blob, after_random 4 s)" by blast
  have ss: "secrets_ok ss" using sender by (simp add: holds_identity_def)
  note opened = open_sealed [OF laws(1,3-5) ss rs blob]
  define letter where "letter contacts = \<lparr>ol_body = w_stdin w,
      ol_message_id = (SOME m. open_letter P rs (secrets_profile P rs) contacts blob =
        Ok \<lparr>ol_body = w_stdin w, ol_message_id = m, ol_sender = secrets_profile P ss,
            ol_sender_trust = classify_sender contacts (secrets_profile P ss)\<rparr>),
      ol_sender = secrets_profile P ss,
      ol_sender_trust = classify_sender contacts (secrets_profile P ss)\<rparr>" for contacts
  have opens: "open_letter P rs (secrets_profile P rs) contacts blob = Ok (letter contacts)" for contacts
    unfolding letter_def using opened [of contacts] by (auto intro: someI_ex)
  show ?thesis
  proof (rule exI [of _ w'], rule exI [of _ blob], intro conjI run allI impI)
    fix v sp' args' b u' keep
    assume "no_faults v \<and> holds_identity P sp' v u' rs \<and> contacts_in_order P sp' v \<and>
      file_at v (path_of_bytes b) = Some blob \<and>
      parse_open_options args' = Ok (\<lparr>op_positionals = [b], op_unlock = Some u',
        op_alias = None, op_output = None\<rparr>, keep)"
    then have o: "no_faults v" "holds_identity P sp' v u' rs" "contacts_in_order P sp' v"
      "file_at v (path_of_bytes b) = Some blob" "parse_open_options args' =
        Ok (\<lparr>op_positionals = [b], op_unlock = Some u', op_alias = None, op_output = None\<rparr>, keep)"
      by auto
    from command_open_runs [OF o(5,1,2,3,4) opens] show "\<exists>v' contacts before after.
        command_open P sp' args' v = (Ok (), v') \<and>
        set contacts = {c. pinned P sp' v (ct_alias c) = Some (ct_profile c)} \<and>
        w_stdout v' = w_stdout v @ w_stdin w \<and>
        w_stderr v' = before @ sender_line (classify_sender contacts (secrets_profile P ss)) @ after"
      by (auto simp: letter_def)
  qed
qed

text \<open>Witness of C1: Alice's \<open>hello\<close>, from her machine to Bob's.\<close>

theorem letter_delivered_witness:
  "\<exists>w' blob v'.
    command_seal sample_primitives home [ascii ''bob'', ascii ''--unlock-key'', ascii ''/key'',
      ascii ''--output'', ascii ''/letter''] (machine alice ''bob'' bob [] (ascii ''hello'')) = (Ok (), w') \<and>
    file_at w' (at_root ''letter'') = Some blob \<and>
    command_open sample_primitives home [ascii ''/letter'', ascii ''--unlock-key'', ascii ''/key'']
      (machine bob ''alice'' alice [([ascii ''letter''], FileNode file_mode blob)] []) = (Ok (), v') \<and>
    w_stdout v' = ascii ''hello''"
proof -
  let ?w = "machine alice ''bob'' bob [] (ascii ''hello'')"
  have utf8: "utf8_valid (ascii ''bob'')" by (rule utf8_valid_ascii) (simp add: ascii_def)
  have body: "length (w_stdin ?w) \<le> MAX_BODY_LEN" by (simp add: MAX_BODY_LEN_def)
  have dh: "\<not> list_all (\<lambda>b. b = 0) (pr_x25519_dh sample_primitives (drawn 0 32 ?w)
      (pp_agreement_public (profile_of bob)))" using sample_dh by simp
  have free: "fs_get (w_fs ?w) ([] @ [ascii ''letter'']) = None"
    by (simp add: machine_def fs_get_def ascii_inject)
  from letter_delivered [OF sample_laws(1,2,3,4) sample_aead_law plain_args(1) utf8 machine_simps(2)
      machine_identity [OF sample_secrets(1)] sample_secrets(2)
      machine_pinned [OF valid_names(1) sample_secrets(2)] body machine_simps(3) dh machine_dirs(2) free]
  obtain w' blob where w': "command_seal sample_primitives home [ascii ''bob'', ascii ''--unlock-key'',
      ascii ''/key'', ascii ''--output'', ascii ''/letter''] ?w = (Ok (), w')"
    "file_at w' ([RootDir] @ [Normal (ascii ''letter'')]) = Some blob"
    and opens: "\<forall>v sp' args' b u' keep. no_faults v \<and> holds_identity sample_primitives sp' v u' bob \<and>
       contacts_in_order sample_primitives sp' v \<and> file_at v (path_of_bytes b) = Some blob \<and>
       parse_open_options args' = Ok (\<lparr>op_positionals = [b], op_unlock = Some u',
         op_alias = None, op_output = None\<rparr>, keep) \<longrightarrow>
       (\<exists>v' contacts before after. command_open sample_primitives sp' args' v = (Ok (), v') \<and>
          set contacts = {c. pinned sample_primitives sp' v (ct_alias c) = Some (ct_profile c)} \<and>
          w_stdout v' = w_stdout v @ w_stdin ?w \<and>
          w_stderr v' = before @ sender_line (classify_sender contacts (profile_of alice)) @ after)"
    by blast
  let ?v = "machine bob ''alice'' alice [([ascii ''letter''], FileNode file_mode blob)] []"
  have "contacts_in_order sample_primitives home ?v"
    by (rule machine_contacts [OF valid_names(2) sample_secrets(1) machine_with_file(1)]) simp
  moreover have "file_at ?v (path_of_bytes (ascii ''/letter'')) = Some blob"
    using machine_with_file(2) by (simp add: plain_paths)
  ultimately obtain v' where "command_open sample_primitives home
      [ascii ''/letter'', ascii ''--unlock-key'', ascii ''/key''] ?v = (Ok (), v')"
    "w_stdout v' = w_stdout ?v @ w_stdin ?w"
    using opens machine_identity [OF sample_secrets(2)] plain_args(2) machine_simps(2) by blast
  with w' show ?thesis by auto
qed

text \<open>C2: In the menu, a letter typed line by line, for the contact the cursor keys lead to, is written
  to the file that was named; and whoever holds the secrets of that contact's profile opens
  it to exactly the lines that were typed.\<close>

theorem typed_letter_delivered:
  assumes laws: "hash_law P" "hkdf_law P" "dh_law P" "sign_law P" "aead_law P"
    and id: "holds_identity P sp w (path_of_bytes ub) ss"
    and env: "w_env w (ascii ''SEALED_UNLOCK_KEY'') = Some ub"
    and cs: "contacts_in_order P sp w" "pinned P sp w a = Some p0"
    and usable: "\<forall>p \<in> ran (pinned P sp w). usable_profile P w p"
    and tty: "raw_terminal w" "types w (seal_typing ks path ls)"
    and keys: "set ks \<subseteq> {KeyUp, KeyDown, KeyIgnore}"
    and path: "plain_path path pb" "path_of_bytes pb = d @ [Normal n]"
    and letter: "ls \<noteq> []" "list_all letter_line ls" "length (letter_lines ls) \<le> MAX_BODY_LEN"
    and rand: "random_total w" and out: "dir_at w d l" "fs_get (w_fs w) (l @ [n]) = None"
  shows "\<exists>cs v v' w' blob i. wizard_seal P sp st w = (Ok (), w') \<and>
    looks w v \<and> all_contacts P sp v = (Ok cs, v') \<and> i < length cs \<and>
    int i = (int (count_list ks KeyDown) - int (count_list ks KeyUp)) mod int (length cs) \<and>
    file_at w' (d @ [Normal n]) = Some blob \<and>
    (\<forall>rs contacts. secrets_ok rs \<and> secrets_profile P rs = ct_profile (cs ! i) \<longrightarrow>
       (\<exists>mid. open_letter P rs (ct_profile (cs ! i)) contacts blob =
          Ok \<lparr>ol_body = letter_lines ls, ol_message_id = mid, ol_sender = secrets_profile P ss,
              ol_sender_trust = classify_sender contacts (secrets_profile P ss)\<rparr>))"
proof -
  from wizard_seal_runs [OF laws id env cs usable tty keys path letter rand out, where st = st]
  obtain cs v v' v2 v3 w' blob i where
    run: "wizard_seal P sp st w = (Ok (), w')" "looks w v" "all_contacts P sp v = (Ok cs, v')"
      "i < length cs" "file_at w' (d @ [Normal n]) = Some blob"
    and i: "i = fold (press (length cs)) ks 0"
    and blob: "seal P ss (secrets_profile P ss) (ct_profile (cs ! i)) (letter_lines ls) v2 = (Ok blob, v3)"
    by blast
  have "int i = (int (count_list ks KeyDown) - int (count_list ks KeyUp)) mod int (length cs)"
    using fold_press [OF _ keys, of 0 "length cs"] run(4) by (cases "cs = []") (simp_all add: i)
  moreover have ss: "secrets_ok ss" using id by (simp add: holds_identity_def)
  have "\<exists>mid. open_letter P rs (ct_profile (cs ! i)) contacts blob =
      Ok \<lparr>ol_body = letter_lines ls, ol_message_id = mid, ol_sender = secrets_profile P ss,
          ol_sender_trust = classify_sender contacts (secrets_profile P ss)\<rparr>"
    if "secrets_ok rs" "secrets_profile P rs = ct_profile (cs ! i)" for rs contacts
    using open_sealed [OF laws(1,3,4,5) ss that(1), unfolded that(2), OF blob] by blast
  ultimately show ?thesis using run by blast
qed

text \<open>Witness of C2: Alice types \<open>hello\<close> for Bob.\<close>

theorem typed_letter_delivered_witness:
  "\<exists>w' blob letter. wizard_seal sample_primitives home \<lparr>ts_color = True\<rparr>
      (at_terminal (seal_typing [] (ascii ''/letter'') [ascii ''hello'']) (machine alice ''bob'' bob [] []))
        = (Ok (), w') \<and>
    file_at w' (at_root ''letter'') = Some blob \<and>
    open_letter sample_primitives bob (profile_of bob) [] blob = Ok letter \<and>
    ol_body letter = ascii ''hello'' @ [newline]"
proof -
  let ?m = "machine alice ''bob'' bob [] []"
  let ?w = "at_terminal (seal_typing [] (ascii ''/letter'') [ascii ''hello'']) ?m"
  note pin = machine_pinned [OF valid_names(1) sample_secrets(2), of alice "[]" "[]"]
  have id: "holds_identity sample_primitives home ?w (path_of_bytes (ascii ''/key'')) alice"
    using machine_identity [OF sample_secrets(1)] by (simp add: at_terminal_same plain_paths)
  have cs: "contacts_in_order sample_primitives home ?w"
    using machine_contacts [OF valid_names(1) sample_secrets(2) machine_fs_ok] by (simp add: at_terminal_same)
  have pw: "pinned sample_primitives home ?w (ascii ''bob'') = Some (profile_of bob)"
    using pin by (simp add: at_terminal_same)
  have only: "p = profile_of bob" if "pinned sample_primitives home ?w a = Some p" for a p
    using machine_pins [OF _ sample_secrets(2)] that by (simp add: at_terminal_same)
  have usable: "\<forall>p \<in> ran (pinned sample_primitives home ?w). usable_profile sample_primitives ?w p"
    using only usable_bob by (fastforce simp: ran_def)
  have keys: "set [] \<subseteq> {KeyUp, KeyDown, KeyIgnore}" by simp
  have types: "types ?w (seal_typing [] (ascii ''/letter'') [ascii ''hello''])" by (simp add: at_terminal_same)
  have letter: "[ascii ''hello''] \<noteq> []" "list_all letter_line [ascii ''hello'']"
    "length (letter_lines [ascii ''hello'']) \<le> MAX_BODY_LEN"
    using letter_hello by (simp_all add: letter_lines_def MAX_BODY_LEN_def)
  have rand: "random_total ?w" by (simp add: at_terminal_same random_total_def sample_world_def)
  have out: "dir_at ?w [RootDir] []" "fs_get (w_fs ?w) ([] @ [ascii ''letter'']) = None"
    using machine_dirs(2) by (simp_all add: at_terminal_same machine_def fs_get_def ascii_inject)
  from typed_letter_delivered [OF sample_laws(1,2,3,4) sample_aead_law id at_terminal_same(10) cs pw usable
      raw_at_terminal types keys plain_letter plain_paths(2) letter rand out, where st = "\<lparr>ts_color = True\<rparr>"]
  obtain cs v v' w' blob i where run: "wizard_seal sample_primitives home \<lparr>ts_color = True\<rparr> ?w = (Ok (), w')"
    "looks ?w v" "all_contacts sample_primitives home v = (Ok cs, v')" "i < length cs"
    "file_at w' ([RootDir] @ [Normal (ascii ''letter'')]) = Some blob"
    and opens: "\<forall>rs contacts. secrets_ok rs \<and> profile_of rs = ct_profile (cs ! i) \<longrightarrow>
       (\<exists>mid. open_letter sample_primitives rs (ct_profile (cs ! i)) contacts blob =
          Ok \<lparr>ol_body = letter_lines [ascii ''hello''], ol_message_id = mid, ol_sender = profile_of alice,
              ol_sender_trust = classify_sender contacts (profile_of alice)\<rparr>)" by blast
  have "no_faults v" "contacts_in_order sample_primitives home v"
    using looks_kept(1) [OF run(2)] cs contacts_in_order_looks(1) [OF run(2)] by (simp_all add: at_terminal_def no_faults_def machine_def sample_world_def)
  with contacts_in_order_all run(3) contacts_in_order_looks(2) [OF run(2)] have
    "set cs = {c. pinned sample_primitives home ?w (ct_alias c) = Some (ct_profile c)}" by fastforce
  with only run(4) nth_mem [OF run(4)] have "ct_profile (cs ! i) = profile_of bob" by blast
  with opens sample_secrets(2) obtain mid where "open_letter sample_primitives bob (profile_of bob) [] blob =
      Ok \<lparr>ol_body = letter_lines [ascii ''hello''], ol_message_id = mid, ol_sender = profile_of alice,
          ol_sender_trust = classify_sender [] (profile_of alice)\<rparr>" by fastforce
  with run show ?thesis by (auto simp: letter_lines_def)
qed

text \<open>C4: A letter that \<open>seal\<close> returns opens for its recipient, whatever the contacts are: to the
  body that was sealed, with the sender's profile, judged against the contacts.\<close>

theorem seal_open_roundtrip:
  assumes "hash_law P" "dh_law P" "sign_law P" "aead_law P"
    and "secrets_ok ss" and "secrets_ok rs"
    and "seal P ss sp (secrets_profile P rs) body w = (Ok blob, w')"
  shows "\<exists>mid. length mid = 32 \<and> open_letter P rs (secrets_profile P rs) contacts blob =
    Ok \<lparr>ol_body = body, ol_message_id = mid, ol_sender = sp,
        ol_sender_trust = classify_sender contacts sp\<rparr>"
  using assms by (rule open_sealed)

text \<open>Witness of C4: Alice's letter to Bob, who has no contacts.\<close>

theorem seal_open_roundtrip_witness:
  "\<exists>blob mid. seal sample_primitives alice (secrets_profile sample_primitives alice)
      (secrets_profile sample_primitives bob) (ascii ''hello'') sample_world
        = (Ok blob, after_random 4 sample_world) \<and>
    open_letter sample_primitives bob (secrets_profile sample_primitives bob) [] blob =
      Ok \<lparr>ol_body = ascii ''hello'', ol_message_id = mid,
          ol_sender = secrets_profile sample_primitives alice, ol_sender_trust = Unknown\<rparr>"
proof -
  have "length (ascii ''hello'') \<le> MAX_BODY_LEN" by (simp add: MAX_BODY_LEN_def)
  from sample_seal [OF this] obtain blob where
    s: "seal sample_primitives alice (secrets_profile sample_primitives alice)
      (secrets_profile sample_primitives bob) (ascii ''hello'') sample_world
        = (Ok blob, after_random 4 sample_world)" by blast
  from seal_open_roundtrip [OF sample_laws(1,3,4) sample_aead_law sample_secrets(1,2) s, of "[]"] s
  show ?thesis by (auto simp: classify_sender_def)
qed

text \<open>C5: The blobs that open for a reader are exactly those of a valid length that are encryptions,
  under the key derived from a nonzero shared secret and with the ephemeral key and nonce as
  associated data, of the documented layout: a profile of consistent keys, the reader's own
  fingerprint, and a signature under that profile over the labelled bytes of the same letter.
  What is returned are the sender, identifier and body that were laid out, and the verdict.\<close>

theorem open_letter_image:
  assumes "hash_law P" and "aead_law P" and "aead_exact P"
  shows "open_letter P rs rp contacts blob = Ok letter \<longleftrightarrow>
    secrets_profile P rs = rp \<and> valid_blob_len (length blob) \<and> letter_in P rs letter blob \<and>
    ol_sender_trust letter = classify_sender contacts (ol_sender letter)"
  using assms by (rule open_letter_iff)

text \<open>Witness of C5: the blob of Alice's \<open>hello\<close> is an encryption of her letter to Bob.\<close>

theorem open_letter_image_witness:
  "\<exists>blob letter. open_letter sample_primitives bob (profile_of bob) [] blob = Ok letter \<and>
    letter_in sample_primitives bob letter blob \<and> ol_body letter = ascii ''hello'' \<and>
    ol_sender letter = profile_of alice"
proof -
  from sample_opening obtain blob letter where
    o: "open_letter sample_primitives bob (profile_of bob) [] blob = Ok letter"
    and l: "ol_body letter = ascii ''hello''" "ol_sender letter = profile_of alice" by fastforce
  from o [unfolded open_letter_image [OF sample_laws(1) sample_aead_law sample_aead_exact]] o l
  show ?thesis by blast
qed

text \<open>C6: Every failure to open is the same error, whatever the blob and whichever check it fails, and
  it is given exactly when no letter is.\<close>

theorem open_failure_uniform:
  "\<forall>e. open_letter P rs rp contacts blob = Err e \<longleftrightarrow>
     e = CannotOpen \<and> (\<nexists>letter. open_letter P rs rp contacts blob = Ok letter)"
  by (cases "open_letter P rs rp contacts blob") (auto dest: open_letter_error)

text \<open>C7: With randomness and a recipient key that gives no zero secret, every body of at most
  1 MiB is sealed, and the blob has the smallest valid length that holds it: its length
  tells no more of the letter than its bucket.\<close>

theorem seal_succeeds:
  assumes "hash_law P" "hkdf_law P" "dh_law P" "sign_law P" "aead_law P"
    and "secrets_ok ss" and "profile_ok P rp" and "length body \<le> MAX_BODY_LEN"
    and "random_available 4 w"
    and "\<not> list_all (\<lambda>b. b = 0) (pr_x25519_dh P (drawn 0 32 w) (pp_agreement_public rp))"
  shows "\<exists>blob. seal P ss (secrets_profile P ss) rp body w = (Ok blob, after_random 4 w) \<and>
    valid_blob_len (length blob) \<and> required_len (length body) \<le> length blob \<and>
    (\<forall>n. valid_blob_len n \<and> required_len (length body) \<le> n \<longrightarrow> length blob \<le> n)"
proof -
  from seal_runs [OF assms] obtain blob where
    blob: "seal P ss (secrets_profile P ss) rp body w = (Ok blob, after_random 4 w)" by blast
  from seal_length [OF this] have
    "valid_blob_len (length blob) \<and> required_len (length body) \<le> length blob \<and>
     (\<forall>n. valid_blob_len n \<and> required_len (length body) \<le> n \<longrightarrow> length blob \<le> n)"
    by (simp add: padded_blob_len_least)
  with blob show ?thesis by blast
qed

text \<open>Witness of C7: a short letter gets the smallest blob there is.\<close>

theorem seal_succeeds_witness:
  "\<exists>blob. seal sample_primitives alice (profile_of alice) (profile_of bob) (ascii ''hello'') sample_world
    = (Ok blob, after_random 4 sample_world) \<and> length blob = 512"
proof -
  have "length (ascii ''hello'') \<le> MAX_BODY_LEN" by (simp add: MAX_BODY_LEN_def)
  from seal_succeeds [OF sample_laws(1,2,3,4) sample_aead_law sample_secrets(1) sample_profiles(2) this
      sample_random sample_dh]
  obtain blob where b: "seal sample_primitives alice (profile_of alice) (profile_of bob) (ascii ''hello'')
      sample_world = (Ok blob, after_random 4 sample_world)"
    and v: "valid_blob_len (length blob)"
    and m: "\<forall>n. valid_blob_len n \<and> required_len (length (ascii ''hello'')) \<le> n \<longrightarrow> length blob \<le> n"
    by blast
  have "valid_blob_len 512" by (auto simp: valid_blob_len_iff intro!: exI [of _ 0])
  with m have "length blob \<le> 512" by (simp add: required_len_def protocol_consts)
  moreover have "512 \<le> length blob" using v by (simp add: valid_blob_len_def protocol_consts)
  ultimately show ?thesis using b by auto
qed

section \<open>Commands\<close>

text \<open>C10: \<open>open\<close> changes the tree only by removing the blob, and only when it was not asked to keep
  it, the blob has opened with the loaded identity, and the whole letter has been written
  out; on every error, and under every fault, the tree is as it was.\<close>

theorem open_removes_last:
  assumes "command_open P sp args w = (r, w')"
  shows "w_fs w' = w_fs w \<or>
    (\<exists>opts u v v' secrets profile contacts blob letter l. r = Ok () \<and>
       parse_open_options args = Ok (opts, False) \<and>
       looks w v \<and> load_identity P sp u v = (Ok (secrets, profile), v') \<and>
       file_at w (path_of_bytes (op_positionals opts ! 0)) = Some blob \<and>
       open_letter P secrets profile contacts blob = Ok letter \<and>
       w_stdout w' = w_stdout w @ ol_body letter \<and>
       resolve (w_fs w) False (w_cwd w) (path_of_bytes (op_positionals opts ! 0)) = Inr l \<and>
       w_fs w' = fs_del l (w_fs w))"
proof (cases "looks w w' \<and> r \<noteq> Ok ()")
  case False
  from command_open_split [OF assms False] obtain opts keep u secrets profile contacts blob letter w1 w2 w4
    where o: "parse_open_options args = Ok (opts, keep)"
      "looks w w1" "load_identity P sp u w1 = (Ok (secrets, profile), w2)"
      "file_at w (path_of_bytes (op_positionals opts ! 0)) = Some blob"
      "open_letter P secrets profile contacts blob = Ok letter"
    and l: "looks w w4"
    and f: "finish_open keep (path_of_bytes (op_positionals opts ! 0)) letter w4 = (r, w')" by blast
  from l have same: "w_fs w4 = w_fs w" "w_cwd w4 = w_cwd w" "w_stdout w4 = w_stdout w"
    by (simp_all add: looks_def same_process_def)
  from finish_open_outcome [OF f, unfolded same] show ?thesis
  proof (elim disjE conjE exE)
    fix l m c
    assume r: "r = Ok ()" "\<not> keep" "w_stdout w' = w_stdout w @ ol_body letter"
      "lookup_node (w_fs w) False (w_cwd w) (path_of_bytes (op_positionals opts ! 0))
        = Inr (l, FileNode m c)" "w_fs w' = fs_del l (w_fs w)"
    have "resolve (w_fs w) False (w_cwd w) (path_of_bytes (op_positionals opts ! 0)) = Inr l"
      using r(4) by (simp add: lookup_node_Inr_iff)
    moreover have "parse_open_options args = Ok (opts, False)" using r(2) o(1) by simp
    ultimately show ?thesis using r(1,3,5) o(2-5) by blast
  qed simp
qed (simp add: looks_def)

text \<open>Witness of C10: the unlock key is missing, so the letter stays.\<close>

theorem open_removes_last_witness:
  "w_fs (snd (command_open sample_primitives home [ascii ''--keep'', ascii ''/letter''] sample_world))
    = w_fs sample_world"
proof -
  have "filter_keep [ascii ''--keep'', ascii ''/letter''] [] False = Ok ([ascii ''/letter''], True)"
    by (simp add: ascii_inject)
  then have "\<nexists>opts. parse_open_options [ascii ''--keep'', ascii ''/letter''] = Ok (opts, False)"
    by (auto simp: parse_open_options_def and_then_Inr_iff)
  with open_removes_last [of sample_primitives home "[ascii ''--keep'', ascii ''/letter'']" sample_world]
  show ?thesis by (metis prod.collapse)
qed

text \<open>C11: In the menu, too, the tree is changed only by removing the blob. The steps of that run are
  then these, each from where the one before has ended: the question whether to remove it was
  answered with yes, the identity was loaded, the contacts were listed, the blob was read and
  opened, and the whole letter was written out. On every other run, with every answer, error
  and fault, the tree is as it was.\<close>

theorem wizard_open_removes_last:
  assumes "wizard_open P sp st w = (r, w')"
  shows "w_fs w' = w_fs w \<or>
    (\<exists>p u secrets profile contacts blob letter w0 w1 w2 w3 w4 w5 w6 l. r = Ok () \<and>
       eprintln ([newline] @ bold st (ascii ''Open a letter'')) w = (Ok (), w0) \<and>
       prompt_path (ascii ''Encrypted letter file'') None w0 = (Ok p, w1) \<and>
       prompt_unlock_path False w1 = (Ok u, w2) \<and>
       prompt_yes_no (ascii ''Delete the ciphertext after a successful open?'') True w2 = (Ok True, w3) \<and>
       load_identity P sp u w3 = (Ok (secrets, profile), w4) \<and>
       all_contacts P sp w4 = (Ok contacts, w5) \<and> read_blob p w5 = (Ok blob, w6) \<and>
       file_at w p = Some blob \<and> open_letter P secrets profile contacts blob = Ok letter \<and>
       w_stdout w' = w_stdout w @ printed_letter (ol_body letter) \<and>
       resolve (w_fs w) False (w_cwd w) p = Inr l \<and> w_fs w' = fs_del l (w_fs w))"
  using wizard_open_changed [OF assms] by (cases "w_fs w' = w_fs w") blast+

text \<open>Witness of C11: Bob answers \<open>n\<close>, and the blob stays, although it is Alice's letter to him.\<close>

theorem wizard_open_removes_last_witness:
  "\<exists>blob. (\<exists>letter. open_letter sample_primitives bob (profile_of bob) [] blob = Ok letter) \<and>
    w_fs (snd (wizard_open sample_primitives home \<lparr>ts_color = True\<rparr>
      (at_terminal (ascii ''/letter'' @ newline # ascii ''n'' @ newline # []) (bob_with blob))))
    = w_fs (bob_with blob)"
proof -
  from sample_opening obtain blob letter where
    o: "open_letter sample_primitives bob (profile_of bob) [] blob = Ok letter" by blast
  let ?rest = "ascii ''n'' @ newline # []"
  let ?w = "at_terminal (ascii ''/letter'' @ newline # ?rest) (bob_with blob)"
  let ?run = "wizard_open sample_primitives home \<lparr>ts_color = True\<rparr> ?w"
  define w0 where "w0 = snd (eprintln ([newline] @ bold \<lparr>ts_color = True\<rparr> (ascii ''Open a letter'')) ?w)"
  have 0: "eprintln ([newline] @ bold \<lparr>ts_color = True\<rparr> (ascii ''Open a letter'')) ?w = (Ok (), w0)"
    and env0: "w_env w0 = w_env ?w" by (simp_all add: w0_def eprintln_def eprint_def)
  have "types ?w (ascii ''/letter'' @ newline # ?rest)" by (simp add: at_terminal_same)
  then have t0: "types w0 (ascii ''/letter'' @ newline # ?rest)" by (simp add: w0_def eprintln_def eprint_def)
  from prompt_path_runs [OF t0 plain_letter] obtain w1 where
    1: "prompt_path (ascii ''Encrypted letter file'') None w0 = (Ok (path_of_bytes (ascii ''/letter'')), w1)"
    and t1: "types w1 ?rest" by blast
  have "w_env w1 = w_env w0" using looks_kept(3) [OF keepsD [OF keeps_path_prompts(3) 1]] .
  then have 2: "prompt_unlock_path False w1 = (Ok (path_of_bytes (ascii ''/key'')), w1)"
    using at_terminal_same(10) by (simp add: prompt_unlock_path_def env_var_def env0)
  have "newline \<notin> set (ascii ''n'')" "utf8_valid (ascii ''n'' @ [newline])" by (simp_all add: ascii_def)
  moreover have "to_ascii_lowercase (trim (ascii ''n'' @ [newline])) = ascii (if False then ''y'' else ''n'')"
    by code_simp
  ultimately obtain w3 where
    3: "prompt_yes_no (ascii ''Delete the ciphertext after a successful open?'') True w1 = (Ok False, w3)"
    using prompt_yes_no_runs [OF t1] by blast
  have "w_fs (snd ?run) = w_fs ?w"
    using wizard_open_removes_last [OF surjective_pairing [of ?run]] 0 1 2 3 by auto
  with o show ?thesis by (auto simp: at_terminal_same)
qed

text \<open>C3: What a successful \<open>open\<close> prints is genuine. The blob was an encryption, for the identity in the
  state directory and under its unlock key, of exactly the letter on the standard output, with
  a signature under the keys of the sender shown, for this reader. A sender shown as pinned
  under a name is the profile pinned under that name; one shown as a mismatch is no pin but has
  a key of the pin of that name; one shown as unknown has no key of any pin.\<close>

theorem open_shows_genuine:
  assumes "hash_law P" and "aead_exact P" and "no_faults w" and "fs_ok (w_fs w)"
    and "real_dir w (sp_contacts sp)" and "command_open P sp args w = (Ok (), w')"
  shows "\<exists>opts keep u w1 key encrypted rs blob letter before after.
    parse_open_options args = Ok (opts, keep) \<and>
    resolve_unlock_path (op_unlock opts) False w = (Ok u, w1) \<and>
    file_at w u = Some (encode_unlock_key key) \<and> length key = 32 \<and>
    file_at w (sp_identity_encrypted sp) = Some encrypted \<and>
    decrypt_private_identity P encrypted key = Ok rs \<and>
    file_at w (sp_identity_public sp) = Some (profile_encode (secrets_profile P rs)) \<and>
    file_at w (path_of_bytes (op_positionals opts ! 0)) = Some blob \<and>
    letter_in P rs letter blob \<and>
    verdict_spec (pinned P sp w) (ol_sender letter) (ol_sender_trust letter) \<and>
    w_stdout w' = w_stdout w @ ol_body letter \<and>
    w_stderr w' = before @ verdict_text letter @ after"
proof -
  from command_open_shows [OF assms] obtain opts keep u w1 key encrypted rs blob contacts letter before after where
    *: "parse_open_options args = Ok (opts, keep)"
      "resolve_unlock_path (op_unlock opts) False w = (Ok u, w1)"
      "file_at w u = Some (encode_unlock_key key)" "length key = 32"
      "file_at w (sp_identity_encrypted sp) = Some encrypted"
      "decrypt_private_identity P encrypted key = Ok rs"
      "file_at w (sp_identity_public sp) = Some (profile_encode (secrets_profile P rs))"
      "file_at w (path_of_bytes (op_positionals opts ! 0)) = Some blob" "letter_in P rs letter blob"
    and cs: "set contacts = {c. pinned P sp w (ct_alias c) = Some (ct_profile c)}"
      "ol_sender_trust letter = classify_sender contacts (ol_sender letter)"
    and out: "w_stdout w' = w_stdout w @ ol_body letter" "w_stderr w' = before @ verdict_text letter @ after"
    by blast
  have "verdict_spec (pinned P sp w) (ol_sender letter) (ol_sender_trust letter)"
    unfolding cs(2) using cs(1) by (rule classify_sender_verdict)
  with * out show ?thesis by blast
qed

text \<open>Witness of C3: Bob opens Alice's \<open>hello\<close>: it is in the blob for him, with a true verdict.\<close>

theorem open_shows_genuine_witness:
  "\<exists>blob letter w' before after.
    command_open sample_primitives home [ascii ''/letter'', ascii ''--unlock-key'', ascii ''/key'']
      (bob_with blob) = (Ok (), w') \<and>
    letter_in sample_primitives bob letter blob \<and> ol_body letter = ascii ''hello'' \<and>
    verdict_spec (pinned sample_primitives home (bob_with blob)) (ol_sender letter) (ol_sender_trust letter) \<and>
    w_stderr w' = before @ verdict_text letter @ after"
proof -
  from sample_opening obtain blob w' where
    run: "command_open sample_primitives home [ascii ''/letter'', ascii ''--unlock-key'', ascii ''/key'']
      (bob_with blob) = (Ok (), w')" "w_stdout w' = ascii ''hello''" by blast
  let ?w = "bob_with blob"
  from open_shows_genuine [OF sample_laws(1) sample_aead_exact machine_simps(2) machine_with_file(1)
      dir_at_real [OF machine_dirs(1)] run(1)]
  obtain opts keep u w1 key encrypted rs blob' letter before after where
    *: "parse_open_options [ascii ''/letter'', ascii ''--unlock-key'', ascii ''/key''] = Ok (opts, keep)"
      "resolve_unlock_path (op_unlock opts) False ?w = (Ok u, w1)"
      "file_at ?w u = Some (encode_unlock_key key)" "length key = 32"
      "file_at ?w (sp_identity_encrypted home) = Some encrypted"
      "decrypt_private_identity sample_primitives encrypted key = Ok rs"
      "file_at ?w (path_of_bytes (op_positionals opts ! 0)) = Some blob'"
      "letter_in sample_primitives rs letter blob'"
      "verdict_spec (pinned sample_primitives home ?w) (ol_sender letter) (ol_sender_trust letter)"
    and out: "w_stdout w' = w_stdout ?w @ ol_body letter" "w_stderr w' = before @ verdict_text letter @ after"
    by blast
  have opts: "op_positionals opts = [ascii ''/letter'']" "op_unlock opts = Some (at_root ''key'')"
    using *(1) plain_args(2) by auto
  then have u: "u = at_root ''key''" using *(2) by (simp add: resolve_unlock_path_def)
  have "file_at ?w (path_of_bytes (op_positionals opts ! 0)) = Some blob"
    using machine_with_file(2) by (simp add: opts plain_paths)
  with *(7) have "blob' = blob" by simp
  have "length unlock_key = 32" by (simp add: unlock_key_def)
  then have "key = unlock_key"
    using *(3,4) unlock.enc_inject [of key unlock_key] by (simp add: u file_at_def machine_lookups)
  then have "rs = bob"
    using *(5,6) identity_file(1) [OF sample_secrets(2)] by (simp add: file_at_def machine_lookups)
  with *(8) \<open>blob' = blob\<close> have "letter_in sample_primitives bob letter blob" by simp
  moreover have "ol_body letter = ascii ''hello''" using run(2) out(1) by simp
  ultimately show ?thesis using run(1) *(9) out(2) by blast
qed

end
